theory Spec2Isabelle
  imports
    Complex_Main
    "HOL-Library.Char_ord"
    "HOL-Library.List_Lexorder"
begin

section \<open>Data model of cleaning.py\<close>

text \<open>
  The functions of \<^verbatim>\<open>cleaning.py\<close> work on a pandas DataFrame. The embedding keeps what
  the functions look at: the row index, and the ordered columns, each with its label, its
  dtype reduced to the four kinds the functions select on, and its cells. Five of the six
  functions are embedded; \<^verbatim>\<open>check_missing\<close> is not, since its result is made of float64
  quotients put in order by the library's default sort.

  \<^item> \<open>Numeric\<close> is what \<^verbatim>\<open>select_dtypes(include='number')\<close> selects, \<open>Categorical\<close> what
    \<^verbatim>\<open>select_dtypes(include='category')\<close> selects, \<open>Datetime\<close> the datetime64 dtype,
    \<open>Text\<close> the object dtype.
  \<^item> A cell is a number, a string, a timestamp, or missing (NaN, None, NaT). Numbers are
    rationals: the embedded functions only compare them with 0 and with each other.
  \<^item> Column labels are strings of bytes; the case conversions are modelled on the ASCII
    letters.
  \<^item> Messages written by \<^verbatim>\<open>print\<close> are not part of the model.
  \<^item> When the source raises, the model returns \<open>Inl\<close> of the exception; the dataset as a
    half-finished call left it is not tracked.
\<close>

datatype kind = Numeric | Text | Datetime | Categorical

record timestamp =
  ts_year :: int
  ts_month :: nat
  ts_day :: nat

datatype cell = Missing | Num rat | Str string | Stamp timestamp

record column =
  name :: string
  kind :: kind
  vals :: "cell list"

record dataframe =
  index :: "int list"
  columns :: "column list"

datatype error = KeyError string | AttributeError | TypeError

text \<open>
  The dataset of the specification is an ordered mapping from column name to column, all
  columns sharing the row index: labels are distinct and every column has one cell per row.
\<close>

definition names :: "dataframe \<Rightarrow> string list" where
  "names df = map name (columns df)"

definition wf_dataframe :: "dataframe \<Rightarrow> bool" where
  "wf_dataframe df \<longleftrightarrow>
     distinct (names df) \<and> list_all (\<lambda>c. length (vals c) = length (index df)) (columns df)"

subsection \<open>The pandas operations the functions call\<close>

text \<open>\<^verbatim>\<open>df[var]\<close>: the column labelled \<open>var\<close>, KeyError when there is none.\<close>

definition getitem :: "dataframe \<Rightarrow> string \<Rightarrow> error + column" where
  "getitem df var =
     (case find (\<lambda>c. name c = var) (columns df) of
        None \<Rightarrow> Inl (KeyError var)
      | Some c \<Rightarrow> Inr c)"

text \<open>
  \<^verbatim>\<open>df[var] = series\<close>: an existing column keeps its position and gets the new dtype and
  cells, a new label is appended after the last column.
\<close>

fun assign :: "column list \<Rightarrow> string \<Rightarrow> kind \<Rightarrow> cell list \<Rightarrow> column list" where
  "assign [] var k vs = [\<lparr>name = var, kind = k, vals = vs\<rparr>]"
| "assign (c # cs) var k vs =
     (if name c = var then \<lparr>name = var, kind = k, vals = vs\<rparr> # cs
      else c # assign cs var k vs)"

definition setitem :: "dataframe \<Rightarrow> string \<Rightarrow> kind \<Rightarrow> cell list \<Rightarrow> dataframe" where
  "setitem df var k vs = df\<lparr>columns := assign (columns df) var k vs\<rparr>"

text \<open>\<^verbatim>\<open>df.select_dtypes(include=...).columns.to_list()\<close> and its \<^verbatim>\<open>exclude\<close> form.\<close>

definition select_dtypes_include :: "kind \<Rightarrow> dataframe \<Rightarrow> string list" where
  "select_dtypes_include k df = map name (filter (\<lambda>c. kind c = k) (columns df))"

definition select_dtypes_exclude :: "kind \<Rightarrow> dataframe \<Rightarrow> string list" where
  "select_dtypes_exclude k df = map name (filter (\<lambda>c. kind c \<noteq> k) (columns df))"

section \<open>clean_headers\<close>

text \<open>
  \<^verbatim>\<open>str.replace(' ', '')\<close> deletes every space character, \<^verbatim>\<open>str.replace('-', '_')\<close>
  turns every dash into an underscore, \<^verbatim>\<open>str.lower()\<close> and \<^verbatim>\<open>str.upper()\<close> convert the
  letters.
\<close>

definition remove_spaces :: "string \<Rightarrow> string" where
  "remove_spaces s = filter (\<lambda>c. c \<noteq> CHR '' '') s"

definition dash_to_underscore :: "string \<Rightarrow> string" where
  "dash_to_underscore s = map (\<lambda>c. if c = CHR ''-'' then CHR ''_'' else c) s"

definition is_lower_char :: "char \<Rightarrow> bool" where
  "is_lower_char c \<longleftrightarrow> 97 \<le> (of_char c :: nat) \<and> (of_char c :: nat) \<le> 122"

definition is_upper_char :: "char \<Rightarrow> bool" where
  "is_upper_char c \<longleftrightarrow> 65 \<le> (of_char c :: nat) \<and> (of_char c :: nat) \<le> 90"

definition lower_char :: "char \<Rightarrow> char" where
  "lower_char c = (if is_upper_char c then char_of ((of_char c :: nat) + 32) else c)"

definition upper_char :: "char \<Rightarrow> char" where
  "upper_char c = (if is_lower_char c then char_of ((of_char c :: nat) - 32) else c)"

definition lower :: "string \<Rightarrow> string" where
  "lower s = map lower_char s"

definition upper :: "string \<Rightarrow> string" where
  "upper s = map upper_char s"

text \<open>\<^verbatim>\<open>df.columns = df.columns.str.f(...)\<close>: every label is replaced by its image.\<close>

definition rename_columns :: "(string \<Rightarrow> string) \<Rightarrow> dataframe \<Rightarrow> dataframe" where
  "rename_columns f df = df\<lparr>columns := map (\<lambda>c. c\<lparr>name := f (name c)\<rparr>) (columns df)\<rparr>"

definition clean_headers :: "dataframe \<Rightarrow> bool \<Rightarrow> bool \<Rightarrow> bool \<Rightarrow> bool \<Rightarrow> dataframe" where
  "clean_headers df remove_whitespace replace_dash lowercase uppercase =
     (let df1 = (if remove_whitespace then rename_columns remove_spaces df else df);
          df2 = (if replace_dash then rename_columns dash_to_underscore df1 else df1);
          df3 = (if lowercase then rename_columns lower df2 else df2);
          df4 = (if uppercase then rename_columns upper df3 else df3)
      in df4)"

text \<open>
  The signature is
  \<^verbatim>\<open>clean_headers(df, remove_whitespace=True, replace_dash=False, lowercase=False, uppercase=False)\<close>;
  a call that passes the dataset alone runs with these values.
\<close>

definition clean_headers_defaults :: "dataframe \<Rightarrow> dataframe" where
  "clean_headers_defaults df = clean_headers df True False False False"

text \<open>The characters Python's \<^verbatim>\<open>str.isspace\<close> accepts among the ASCII ones.\<close>

definition is_whitespace :: "char \<Rightarrow> bool" where
  "is_whitespace c \<longleftrightarrow> (of_char c :: nat) \<in> {9, 10, 11, 12, 13, 28, 29, 30, 31, 32}"

section \<open>check_negative\<close>

text \<open>
  \<^verbatim>\<open>df[var] < 0\<close> compares cell by cell; a missing value compares false. \<^verbatim>\<open>any\<close> is true
  when one of the comparisons is, and false on a column without rows.
\<close>

fun negative :: "cell \<Rightarrow> bool" where
  "negative (Num x) = (x < 0)"
| "negative _ = False"

definition any_negative :: "column \<Rightarrow> bool" where
  "any_negative c = list_ex negative (vals c)"

text \<open>
  The loop reads \<^verbatim>\<open>df[var]\<close> for labels taken from the dataset itself, so the lookup cannot
  miss; the report is the list of (label, flag) pairs that \<^verbatim>\<open>dict(zip(...))\<close> and
  \<^verbatim>\<open>from_dict(orient='index')\<close> turn into the rows of the result.
\<close>

definition flag_of :: "dataframe \<Rightarrow> string \<Rightarrow> bool" where
  "flag_of df var = (case getitem df var of Inl e \<Rightarrow> False | Inr c \<Rightarrow> any_negative c)"

definition check_negative :: "dataframe \<Rightarrow> string list \<Rightarrow> (string \<times> bool) list" where
  "check_negative df exclude_vars =
     (let numeric_vars = select_dtypes_include Numeric df;
          vars_to_check = filter (\<lambda>var. var \<notin> set exclude_vars) numeric_vars;
          neg_values = map (flag_of df) vars_to_check
      in zip vars_to_check neg_values)"

section \<open>convert_to_categorical\<close>

text \<open>
  \<^verbatim>\<open>df[var] = df[var].astype('category')\<close>: the column keeps its cells and gets the
  categorical dtype; KeyError when the label is not in the dataset.
\<close>

definition astype_category :: "dataframe \<Rightarrow> string \<Rightarrow> error + dataframe" where
  "astype_category df var =
     (case getitem df var of
        Inl e \<Rightarrow> Inl e
      | Inr c \<Rightarrow> Inr (setitem df var Categorical (vals c)))"

fun convert_loop :: "string list \<Rightarrow> dataframe \<Rightarrow> error + dataframe" where
  "convert_loop [] df = Inr df"
| "convert_loop (var # cat_vars) df =
     (case astype_category df var of
        Inl e \<Rightarrow> Inl e
      | Inr df' \<Rightarrow> convert_loop cat_vars df')"

definition convert_to_categorical :: "dataframe \<Rightarrow> string list \<Rightarrow> error + dataframe" where
  "convert_to_categorical df add_vars =
     (let cat_vars = select_dtypes_exclude Numeric df;
          cat_vars' = (if length add_vars > 0 then cat_vars @ add_vars else cat_vars)
      in convert_loop cat_vars' df)"

text \<open>The columns the function selects: the non-numeric ones and the ones named in the list.\<close>

definition selected :: "string list \<Rightarrow> column \<Rightarrow> bool" where
  "selected add_vars c \<longleftrightarrow> kind c \<noteq> Numeric \<or> name c \<in> set add_vars"

section \<open>label_encode\<close>

text \<open>
  \<^verbatim>\<open>df[var].unique()\<close> lists the distinct cells in the order of their first appearance,
  a missing value among them.
\<close>

definition unique :: "cell list \<Rightarrow> cell list" where
  "unique vs = rev (remdups (rev vs))"

text \<open>
  \<^verbatim>\<open>LabelEncoder.fit_transform\<close> collects the distinct values, sorts the ones that are not
  missing with Python's \<^verbatim>\<open><\<close>, puts the missing value last, and replaces every cell by
  the position of its value in that list. \<^verbatim>\<open><\<close> compares numbers with numbers, strings
  with strings and timestamps with timestamps; on values of two types the encoder raises
  TypeError.
\<close>

definition ts_key :: "timestamp \<Rightarrow> int list" where
  "ts_key t = [ts_year t, int (ts_month t), int (ts_day t)]"

fun cell_less :: "cell \<Rightarrow> cell \<Rightarrow> bool" where
  "cell_less (Num a) (Num b) = (a < b)"
| "cell_less (Str a) (Str b) = (a < b)"
| "cell_less (Stamp a) (Stamp b) = (ts_key a < ts_key b)"
| "cell_less _ _ = False"

fun same_type :: "cell \<Rightarrow> cell \<Rightarrow> bool" where
  "same_type (Num a) (Num b) = True"
| "same_type (Str a) (Str b) = True"
| "same_type (Stamp a) (Stamp b) = True"
| "same_type _ _ = False"

fun uniform :: "cell list \<Rightarrow> bool" where
  "uniform [] = True"
| "uniform (v # vs) = (list_all (same_type v) vs \<and> uniform vs)"

fun insort_cell :: "cell \<Rightarrow> cell list \<Rightarrow> cell list" where
  "insort_cell x [] = [x]"
| "insort_cell x (y # ys) = (if cell_less x y then x # y # ys else y # insort_cell x ys)"

fun sorted_cells :: "cell list \<Rightarrow> cell list" where
  "sorted_cells [] = []"
| "sorted_cells (x # xs) = insort_cell x (sorted_cells xs)"

definition classes :: "cell list \<Rightarrow> error + cell list" where
  "classes vs =
     (let present = remdups (filter (\<lambda>v. v \<noteq> Missing) vs)
      in if uniform present
         then Inr (sorted_cells present @ (if Missing \<in> set vs then [Missing] else []))
         else Inl TypeError)"

fun position :: "cell list \<Rightarrow> cell \<Rightarrow> nat" where
  "position [] v = 0"
| "position (u # us) v = (if u = v then 0 else Suc (position us v))"

definition fit_transform :: "cell list \<Rightarrow> error + cell list" where
  "fit_transform vs =
     (case classes vs of
        Inl e \<Rightarrow> Inl e
      | Inr cs \<Rightarrow> Inr (map (\<lambda>v. Num (of_nat (position cs v))) vs))"

text \<open>
  The loop of \<^verbatim>\<open>label_encode\<close>: a column with at most two distinct cells is replaced by
  its codes, an integer column; the others are passed over.
\<close>

fun encode_loop :: "string list \<Rightarrow> dataframe \<Rightarrow> error + dataframe" where
  "encode_loop [] df = Inr df"
| "encode_loop (var # vars_to_encode) df =
     (case getitem df var of
        Inl e \<Rightarrow> Inl e
      | Inr c \<Rightarrow>
          if length (unique (vals c)) \<le> 2
          then (case fit_transform (vals c) of
                  Inl e \<Rightarrow> Inl e
                | Inr codes \<Rightarrow> encode_loop vars_to_encode (setitem df var Numeric codes))
          else encode_loop vars_to_encode df)"

definition label_encode :: "dataframe \<Rightarrow> string list \<Rightarrow> error + dataframe" where
  "label_encode df exclude_list =
     (let cat_vars = select_dtypes_include Categorical df;
          vars_to_encode = filter (\<lambda>x. x \<notin> set exclude_list) cat_vars
      in encode_loop vars_to_encode df)"

text \<open>The column the loop stores for a column it encodes.\<close>

definition encode_column :: "column \<Rightarrow> column" where
  "encode_column c =
     (case fit_transform (vals c) of
        Inl e \<Rightarrow> c
      | Inr codes \<Rightarrow> c\<lparr>kind := Numeric, vals := codes\<rparr>)"

text \<open>
  The order the codes follow: a value comes before another when it is smaller, and before
  the missing value when it is not missing itself.
\<close>

definition sorts_before :: "cell \<Rightarrow> cell \<Rightarrow> bool" where
  "sorts_before a b \<longleftrightarrow> cell_less a b \<or> (a \<noteq> Missing \<and> b = Missing)"

text \<open>A column is homogeneous when the cells that are not missing have one type.\<close>

definition homogeneous :: "column \<Rightarrow> bool" where
  "homogeneous c \<longleftrightarrow> uniform (filter (\<lambda>v. v \<noteq> Missing) (vals c))"

section \<open>create_time_vars\<close>

text \<open>
  The \<^verbatim>\<open>.dt\<close> accessor accepts a column of datetime dtype and a categorical column
  whose categories are timestamps; on any other column it raises AttributeError. The
  categories of a column are its cells that are not missing. Of a categorical column
  without such a cell the embedding does not keep the dtype of the categories; it lets the
  accessor accept the column, so that every call that returns is a call the embedding
  returns on.
\<close>

fun is_stamp :: "cell \<Rightarrow> bool" where
  "is_stamp (Stamp t) = True"
| "is_stamp _ = False"

definition datetimelike :: "column \<Rightarrow> bool" where
  "datetimelike c \<longleftrightarrow>
     kind c = Datetime \<or>
     (kind c = Categorical \<and> list_all (\<lambda>v. v = Missing \<or> is_stamp v) (vals c))"

text \<open>
  The fields of the accessor are taken cell by cell and are missing where the timestamp is
  (NaT). The day of the week is computed from the date, Sunday being 0.
\<close>

definition month_names :: "string list" where
  "month_names = [''January'', ''February'', ''March'', ''April'', ''May'', ''June'', ''July'',
     ''August'', ''September'', ''October'', ''November'', ''December'']"

definition day_names :: "string list" where
  "day_names = [''Sunday'', ''Monday'', ''Tuesday'', ''Wednesday'', ''Thursday'', ''Friday'',
     ''Saturday'']"

definition valid_month :: "nat \<Rightarrow> bool" where
  "valid_month m \<longleftrightarrow> 1 \<le> m \<and> m \<le> 12"

definition day_of_week :: "timestamp \<Rightarrow> nat" where
  "day_of_week t =
     (let y = (if ts_month t < 3 then ts_year t - 1 else ts_year t);
          e = [0, 3, 2, 5, 0, 3, 5, 1, 4, 6, 2, 4] ! (ts_month t - 1)
      in nat ((y + y div 4 - y div 100 + y div 400 + e + int (ts_day t)) mod 7))"

fun dt_year :: "cell \<Rightarrow> cell" where
  "dt_year (Stamp t) = Num (of_int (ts_year t))"
| "dt_year _ = Missing"

fun dt_month :: "cell \<Rightarrow> nat option" where
  "dt_month (Stamp t) = Some (ts_month t)"
| "dt_month _ = None"

fun dt_month_name :: "cell \<Rightarrow> cell" where
  "dt_month_name (Stamp t) =
     (if valid_month (ts_month t) then Str (month_names ! (ts_month t - 1)) else Missing)"
| "dt_month_name _ = Missing"

fun dt_day_name :: "cell \<Rightarrow> cell" where
  "dt_day_name (Stamp t) =
     (if valid_month (ts_month t) then Str (day_names ! day_of_week t) else Missing)"
| "dt_day_name _ = Missing"

text \<open>
  \<^verbatim>\<open>month_to_season = dict(zip(range(1,13), seasons))\<close>, and \<^verbatim>\<open>.dt.month.map(month_to_season)\<close>:
  a month that is not a key of the dictionary, or a missing one, maps to a missing value.
\<close>

definition seasons :: "string list" where
  "seasons = [''Winter'', ''Winter'', ''Spring'', ''Spring'', ''Spring'', ''Summer'',
     ''Summer'', ''Summer'', ''Autumn'', ''Autumn'', ''Autumn'', ''Winter'']"

definition month_to_season :: "nat \<Rightarrow> string option" where
  "month_to_season = map_of (zip [1..<13] seasons)"

definition season_cell :: "cell \<Rightarrow> cell" where
  "season_cell v =
     (case dt_month v of
        None \<Rightarrow> Missing
      | Some m \<Rightarrow> (case month_to_season m of None \<Rightarrow> Missing | Some s \<Rightarrow> Str s))"

text \<open>The labels after an assignment to \<open>n\<close>: a new label goes to the end.\<close>

definition add_name :: "string list \<Rightarrow> string \<Rightarrow> string list" where
  "add_name ns n = (if n \<in> set ns then ns else ns @ [n])"

text \<open>
  One feature: \<^verbatim>\<open>df[new] = df[time_var].dt.f\<close>, then \<^verbatim>\<open>df.new = df.new.astype('category')\<close>.
  The first statement stores the values with the dtype the accessor gives them (\<open>k\<close>).
\<close>

definition derive :: "dataframe \<Rightarrow> string \<Rightarrow> string \<Rightarrow> kind \<Rightarrow> (cell \<Rightarrow> cell) \<Rightarrow> error + dataframe" where
  "derive df time_var new k f =
     (case getitem df time_var of
        Inl e \<Rightarrow> Inl e
      | Inr c \<Rightarrow>
          if \<not> datetimelike c then Inl AttributeError
          else astype_category (setitem df new k (map f (vals c))) new)"

definition and_then :: "error + 'a \<Rightarrow> ('a \<Rightarrow> error + 'b) \<Rightarrow> error + 'b" where
  "and_then r f = (case r of Inl e \<Rightarrow> Inl e | Inr x \<Rightarrow> f x)"

text \<open>The four guarded blocks, each working on the dataset the one before left.\<close>

definition derive_all :: "dataframe \<Rightarrow> string \<Rightarrow> bool \<Rightarrow> bool \<Rightarrow> bool \<Rightarrow> bool \<Rightarrow> error + dataframe" where
  "derive_all df time_var year month day season =
     and_then (if year then derive df time_var ''year'' Numeric dt_year else Inr df) (\<lambda>df1.
     and_then (if month then derive df1 time_var ''month'' Text dt_month_name else Inr df1) (\<lambda>df2.
     and_then (if day then derive df2 time_var ''day'' Text dt_day_name else Inr df2) (\<lambda>df3.
     (if season then derive df3 time_var ''season'' Text season_cell else Inr df3))))"

text \<open>
  \<^verbatim>\<open>df.drop(time_var, axis=1)\<close> builds a new dataset without the columns of that label and
  leaves its argument as it is; KeyError when no column has the label.
\<close>

definition drop :: "dataframe \<Rightarrow> string \<Rightarrow> error + dataframe" where
  "drop df var =
     (if var \<in> set (names df)
      then Inr (df\<lparr>columns := filter (\<lambda>c. name c \<noteq> var) (columns df)\<rparr>)
      else Inl (KeyError var))"

text \<open>
  The caller's dataset is an object that the four blocks change in place, while
  \<^verbatim>\<open>df = df.drop(time_var, axis=1)\<close> binds the local name to a new object. To tell the two
  apart the datasets live in a store, a list addressed by position; the function gets the
  caller's reference and returns the store with the reference it returns. A new object
  takes the next free position.
\<close>

type_synonym store = "dataframe list"

definition create_time_vars ::
  "store \<Rightarrow> nat \<Rightarrow> string \<Rightarrow> bool \<Rightarrow> bool \<Rightarrow> bool \<Rightarrow> bool \<Rightarrow> bool \<Rightarrow> error + store \<times> nat" where
  "create_time_vars st df time_var year month day season drop_var =
     (case derive_all (st ! df) time_var year month day season of
        Inl e \<Rightarrow> Inl e
      | Inr d \<Rightarrow>
          (let st1 = st[df := d]
           in if drop_var
              then (case drop d time_var of
                      Inl e \<Rightarrow> Inl e
                    | Inr d' \<Rightarrow> Inr (st1 @ [d'], length st1))
              else Inr (st1, df)))"

text \<open>The names of the requested features, in the order of the four blocks.\<close>

definition requested :: "bool \<Rightarrow> bool \<Rightarrow> bool \<Rightarrow> bool \<Rightarrow> string list" where
  "requested year month day season =
     (if year then [''year''] else []) @ (if month then [''month''] else []) @
     (if day then [''day''] else []) @ (if season then [''season''] else [])"

text \<open>The requested features with the function that computes each from a cell of the source.\<close>

definition features :: "bool \<Rightarrow> bool \<Rightarrow> bool \<Rightarrow> bool \<Rightarrow> (string \<times> (cell \<Rightarrow> cell)) list" where
  "features year month day season =
     (if year then [(''year'', dt_year)] else []) @
     (if month then [(''month'', dt_month_name)] else []) @
     (if day then [(''day'', dt_day_name)] else []) @
     (if season then [(''season'', season_cell)] else [])"

text \<open>
  A feature function never gives a timestamp. When a block has written its feature over
  the source column and a later block still accepts that column, every cell of it is
  missing; then a later feature \<open>g\<close>, which is missing wherever the earlier one is, has
  the same values on the column it reads as on the source column.
\<close>

definition blank_with :: "(cell \<Rightarrow> cell) \<Rightarrow> (cell \<Rightarrow> cell) \<Rightarrow> bool" where
  "blank_with f g \<longleftrightarrow> (\<forall>v. \<not> is_stamp (f v) \<and> (f v = Missing \<longrightarrow> g v = Missing)) \<and> g Missing = Missing"


section \<open>Example datasets\<close>

definition ex_hdr :: dataframe where
  "ex_hdr = \<lparr>index = [0],
     columns = [\<lparr>name = '' Sale-Date '', kind = Datetime, vals = [Missing]\<rparr>,
                \<lparr>name = ''Amount'', kind = Numeric, vals = [Num 1]\<rparr>]\<rparr>"

definition ex_tab :: dataframe where
  "ex_tab = \<lparr>index = [0],
     columns = [\<lparr>name = [CHR ''a'', CHR 0x09, CHR ''b''], kind = Numeric, vals = [Num 1]\<rparr>]\<rparr>"

definition ex_neg :: dataframe where
  "ex_neg = \<lparr>index = [0, 1],
     columns = [\<lparr>name = ''amount'', kind = Numeric, vals = [Num 3, Num (-2)]\<rparr>,
                \<lparr>name = ''region'', kind = Text, vals = [Str ''N'', Str ''S'']\<rparr>,
                \<lparr>name = ''qty'', kind = Numeric, vals = [Num 0, Missing]\<rparr>,
                \<lparr>name = ''id'', kind = Numeric, vals = [Num (-1), Num (-5)]\<rparr>]\<rparr>"

definition ex_nan :: dataframe where
  "ex_nan = \<lparr>index = [0, 1],
     columns = [\<lparr>name = ''gap'', kind = Numeric, vals = [Missing, Missing]\<rparr>,
                \<lparr>name = ''loss'', kind = Numeric, vals = [Missing, Num (-4)]\<rparr>]\<rparr>"

definition ex_conv :: dataframe where
  "ex_conv = \<lparr>index = [0, 1],
     columns = [\<lparr>name = ''amount'', kind = Numeric, vals = [Num 3, Num (-2)]\<rparr>,
                \<lparr>name = ''region'', kind = Text, vals = [Str ''N'', Str ''S'']\<rparr>,
                \<lparr>name = ''code'', kind = Numeric, vals = [Num 7, Num 7]\<rparr>]\<rparr>"

definition ex_enc :: dataframe where
  "ex_enc = \<lparr>index = [0, 1, 2],
     columns = [\<lparr>name = ''answer'', kind = Categorical, vals = [Str ''yes'', Str ''no'', Str ''yes'']\<rparr>,
                \<lparr>name = ''region'', kind = Categorical, vals = [Str ''N'', Str ''S'', Str ''W'']\<rparr>,
                \<lparr>name = ''flag'', kind = Categorical, vals = [Missing, Num 4, Missing]\<rparr>,
                \<lparr>name = ''keep'', kind = Categorical, vals = [Str ''b'', Str ''a'', Str ''b'']\<rparr>,
                \<lparr>name = ''note'', kind = Text, vals = [Str ''p'', Str ''q'', Str ''p'']\<rparr>]\<rparr>"

definition ex_mixed :: dataframe where
  "ex_mixed = \<lparr>index = [0, 1],
     columns = [\<lparr>name = ''m'', kind = Categorical, vals = [Num 1, Str ''a'']\<rparr>]\<rparr>"

text \<open>
  The timestamps 2023-07-15 and 2023-12-01 of the specification, the dataset the call
  leaves at the caller's reference, and the one it returns when the source column is
  dropped.
\<close>

definition ex_time :: dataframe where
  "ex_time = \<lparr>index = [0, 1],
     columns = [\<lparr>name = ''date'', kind = Datetime,
                  vals = [Stamp \<lparr>ts_year = 2023, ts_month = 7, ts_day = 15\<rparr>,
                          Stamp \<lparr>ts_year = 2023, ts_month = 12, ts_day = 1\<rparr>]\<rparr>,
                \<lparr>name = ''amount'', kind = Numeric, vals = [Num 5, Num (-1)]\<rparr>]\<rparr>"

definition ex_time_derived :: dataframe where
  "ex_time_derived = \<lparr>index = [0, 1],
     columns = [\<lparr>name = ''date'', kind = Datetime,
                  vals = [Stamp \<lparr>ts_year = 2023, ts_month = 7, ts_day = 15\<rparr>,
                          Stamp \<lparr>ts_year = 2023, ts_month = 12, ts_day = 1\<rparr>]\<rparr>,
                \<lparr>name = ''amount'', kind = Numeric, vals = [Num 5, Num (-1)]\<rparr>,
                \<lparr>name = ''year'', kind = Categorical, vals = [Num 2023, Num 2023]\<rparr>,
                \<lparr>name = ''month'', kind = Categorical, vals = [Str ''July'', Str ''December'']\<rparr>,
                \<lparr>name = ''day'', kind = Categorical, vals = [Str ''Saturday'', Str ''Friday'']\<rparr>,
                \<lparr>name = ''season'', kind = Categorical, vals = [Str ''Summer'', Str ''Winter'']\<rparr>]\<rparr>"

definition ex_time_dropped :: dataframe where
  "ex_time_dropped = \<lparr>index = [0, 1],
     columns = [\<lparr>name = ''amount'', kind = Numeric, vals = [Num 5, Num (-1)]\<rparr>,
                \<lparr>name = ''year'', kind = Categorical, vals = [Num 2023, Num 2023]\<rparr>,
                \<lparr>name = ''month'', kind = Categorical, vals = [Str ''July'', Str ''December'']\<rparr>,
                \<lparr>name = ''day'', kind = Categorical, vals = [Str ''Saturday'', Str ''Friday'']\<rparr>,
                \<lparr>name = ''season'', kind = Categorical, vals = [Str ''Summer'', Str ''Winter'']\<rparr>]\<rparr>"

text \<open>A dataset that already has a column labelled \<open>year\<close>, before and after the call.\<close>

definition ex_year :: dataframe where
  "ex_year = \<lparr>index = [0],
     columns = [\<lparr>name = ''year'', kind = Numeric, vals = [Num 1]\<rparr>,
                \<lparr>name = ''date'', kind = Datetime,
                  vals = [Stamp \<lparr>ts_year = 2023, ts_month = 7, ts_day = 15\<rparr>]\<rparr>]\<rparr>"

definition ex_year_derived :: dataframe where
  "ex_year_derived = \<lparr>index = [0],
     columns = [\<lparr>name = ''year'', kind = Categorical, vals = [Num 2023]\<rparr>,
                \<lparr>name = ''date'', kind = Datetime,
                  vals = [Stamp \<lparr>ts_year = 2023, ts_month = 7, ts_day = 15\<rparr>]\<rparr>,
                \<lparr>name = ''month'', kind = Categorical, vals = [Str ''July'']\<rparr>,
                \<lparr>name = ''day'', kind = Categorical, vals = [Str ''Saturday'']\<rparr>,
                \<lparr>name = ''season'', kind = Categorical, vals = [Str ''Summer'']\<rparr>]\<rparr>"




definition ex_cat_time :: dataframe where
  "ex_cat_time = \<lparr>index = [0, 1],
     columns = [\<lparr>name = ''when'', kind = Categorical,
                  vals = [Stamp \<lparr>ts_year = 2023, ts_month = 7, ts_day = 15\<rparr>, Missing]\<rparr>]\<rparr>"

section \<open>Properties of clean_headers\<close>

lemma names_rename_columns: "names (rename_columns f df) = map f (names df)"
  by (simp add: names_def rename_columns_def o_def)

lemma clean_headers_all_names:
  "names (clean_headers df True True True True) =
     map (\<lambda>n. upper (lower (dash_to_underscore (remove_spaces n)))) (names df)"
  by (simp add: clean_headers_def names_rename_columns o_def)

lemma upper_char_not_lower: "\<not> is_lower_char (upper_char c)"
  by (auto simp: upper_char_def is_lower_char_def)

lemma upper_no_lower: "\<not> list_ex is_lower_char (upper s)"
  by (simp add: upper_def list_ex_iff upper_char_not_lower)

lemma upper_char_eq_iff:
  "\<not> is_upper_char d \<Longrightarrow> upper_char c = d \<longleftrightarrow> c = d \<and> \<not> is_lower_char c"
  by (auto simp: upper_char_def is_lower_char_def is_upper_char_def)

lemma lower_char_eq_iff:
  "\<not> is_lower_char d \<Longrightarrow> lower_char c = d \<longleftrightarrow> c = d \<and> \<not> is_upper_char c"
  by (auto simp: lower_char_def is_lower_char_def is_upper_char_def)

text \<open>
  With the four switches on, every label goes through the four conversions in the order
  of the source; the result has no lower-case letter, no space character and no dash.
\<close>

lemma clean_headers_all_shape:
  assumes "n \<in> set (names (clean_headers df True True True True))"
  shows "\<not> list_ex is_lower_char n \<and> CHR '' '' \<notin> set n \<and> CHR ''-'' \<notin> set n"
proof -
  from assms obtain m where n: "n = upper (lower (dash_to_underscore (remove_spaces m)))"
    by (auto simp: clean_headers_all_names)
  have sp: "\<not> is_upper_char CHR '' ''" "\<not> is_lower_char CHR '' ''"
           "\<not> is_upper_char CHR ''-''" "\<not> is_lower_char CHR ''-''"
    by (simp_all add: is_upper_char_def is_lower_char_def)
  have "CHR '' '' \<notin> set n"
    by (auto simp: n upper_def lower_def dash_to_underscore_def remove_spaces_def
          upper_char_eq_iff lower_char_eq_iff sp eq_commute [of "CHR '' ''"] split: if_splits)
  moreover have "CHR ''-'' \<notin> set n"
    by (auto simp: n upper_def lower_def dash_to_underscore_def remove_spaces_def
          upper_char_eq_iff lower_char_eq_iff sp eq_commute [of "CHR ''-''"] split: if_splits)
  ultimately show ?thesis by (simp add: n upper_no_lower)
qed

text \<open>
  C6. With the four switches on, a label that holds a tab keeps it: only the space
  character is deleted, so the resulting label still contains whitespace.
\<close>

theorem clean_headers_keeps_tab:
  "names (clean_headers ex_tab True True True True) = [[CHR ''A'', CHR 0x09, CHR ''B'']] \<and>
   is_whitespace (CHR 0x09)"
  by (simp add: ex_tab_def names_def clean_headers_def rename_columns_def remove_spaces_def
        dash_to_underscore_def lower_def upper_def lower_char_def upper_char_def
        is_lower_char_def is_upper_char_def is_whitespace_def char_of_def bit_Suc_0_iff)

text \<open>
  C9. Called with the dataset alone, \<open>clean_headers\<close> deletes the space characters of
  every label and does nothing else: it returns the dataset unchanged exactly when no
  label holds a space.
\<close>

theorem clean_headers_defaults_strips:
  "names (clean_headers_defaults df) = map (filter (\<lambda>x. x \<noteq> CHR '' '')) (names df) \<and>
   (clean_headers_defaults df = df \<longleftrightarrow> (\<forall>n \<in> set (names df). CHR '' '' \<notin> set n))"
proof -
  have n: "names (clean_headers_defaults df) = map (filter (\<lambda>x. x \<noteq> CHR '' '')) (names df)"
    by (simp add: clean_headers_defaults_def clean_headers_def names_rename_columns
          remove_spaces_def [abs_def])
  have "clean_headers_defaults df = df" if "\<forall>n \<in> set (names df). CHR '' '' \<notin> set n"
  proof -
    have "c\<lparr>name := remove_spaces (name c)\<rparr> = c" if "c \<in> set (columns df)" for c
    proof -
      have "remove_spaces (name c) = name c"
        using that \<open>\<forall>n \<in> set (names df). CHR '' '' \<notin> set n\<close>
        by (auto simp: names_def remove_spaces_def filter_id_conv)
      then show ?thesis by simp
    qed
    then have "map (\<lambda>c. c\<lparr>name := remove_spaces (name c)\<rparr>) (columns df) = columns df"
      by (simp add: map_idI)
    then show ?thesis
      by (simp add: clean_headers_defaults_def clean_headers_def rename_columns_def)
  qed
  moreover have "\<forall>n \<in> set (names df). CHR '' '' \<notin> set n" if "clean_headers_defaults df = df"
  proof -
    from n that have "map (filter (\<lambda>x. x \<noteq> CHR '' '')) (names df) = names df" by simp
    then have "\<forall>n \<in> set (names df). filter (\<lambda>x. x \<noteq> CHR '' '') n = n"
      by (simp add: map_eq_conv [where g=id, simplified])
    then show ?thesis by (auto simp: filter_id_conv)
  qed
  ultimately show ?thesis using n by blast
qed

theorem clean_headers_defaults_strips_witness:
  "names (clean_headers_defaults ex_hdr) = [''Sale-Date'', ''Amount''] \<and>
   clean_headers_defaults ex_hdr \<noteq> ex_hdr"
  using clean_headers_defaults_strips [of ex_hdr]
  by (simp add: ex_hdr_def names_def)

section \<open>Properties of check_negative\<close>

lemma find_name_distinct:
  "distinct (map name cs) \<Longrightarrow> c \<in> set cs \<Longrightarrow> find (\<lambda>d. name d = name c) cs = Some c"
  by (induction cs) (auto simp: rev_image_eqI)

lemma getitem_member:
  "distinct (names df) \<Longrightarrow> c \<in> set (columns df) \<Longrightarrow> getitem df (name c) = Inr c"
  by (simp add: getitem_def names_def find_name_distinct)

lemma flag_of_member:
  "distinct (names df) \<Longrightarrow> c \<in> set (columns df) \<Longrightarrow> flag_of df (name c) = any_negative c"
  by (simp add: flag_of_def getitem_member)

lemma negative_iff: "negative v \<longleftrightarrow> (\<exists>x<0. v = Num x)"
  by (cases v) auto

lemma any_negative_iff: "any_negative c \<longleftrightarrow> (\<exists>x<0. Num x \<in> set (vals c))"
  by (auto simp: any_negative_def list_ex_iff negative_iff)

lemma zip_map_self: "zip xs (map f xs) = map (\<lambda>x. (x, f x)) xs"
  by (induction xs) auto

lemma check_negative_eq:
  assumes "distinct (names df)"
  shows "check_negative df exclude_vars =
           map (\<lambda>c. (name c, \<exists>x<0. Num x \<in> set (vals c)))
             (filter (\<lambda>c. kind c = Numeric \<and> name c \<notin> set exclude_vars) (columns df))"
proof -
  have "map (\<lambda>var. (var, flag_of df var)) (map name cs) =
          map (\<lambda>c. (name c, \<exists>x<0. Num x \<in> set (vals c))) cs"
    if "set cs \<subseteq> set (columns df)" for cs
    using that assms by (induction cs) (auto simp: flag_of_member any_negative_iff)
  from this [of "filter (\<lambda>c. kind c = Numeric \<and> name c \<notin> set exclude_vars) (columns df)"]
  show ?thesis
    by (simp add: check_negative_def select_dtypes_include_def zip_map_self filter_map o_def
                  conj_commute)
qed

lemma map_of_name_report:
  "distinct (map name cs) \<Longrightarrow> c \<in> set cs \<Longrightarrow>
   map_of (map (\<lambda>c. (name c, f c)) cs) (name c) = Some (f c)"
  by (induction cs) (auto simp: rev_image_eqI)

text \<open>
  C5. The report of \<open>check_negative\<close> has one row for each numeric column that is not in
  the exclusion list, in the order of the columns, and no other row; the flag of a column
  is true exactly when one of its cells is a number below 0. A column without rows gets
  the flag false.
\<close>

theorem check_negative_report:
  assumes "distinct (names df)"
  shows "check_negative df exclude_vars =
           map (\<lambda>c. (name c, \<exists>x<0. Num x \<in> set (vals c)))
             (filter (\<lambda>c. kind c = Numeric \<and> name c \<notin> set exclude_vars) (columns df)) \<and>
         (\<forall>c \<in> set (columns df). vals c = [] \<longrightarrow>
            (name c, True) \<notin> set (check_negative df exclude_vars))"
proof -
  have "(name c, True) \<notin> set (check_negative df exclude_vars)"
    if "c \<in> set (columns df)" "vals c = []" for c
  proof
    assume "(name c, True) \<in> set (check_negative df exclude_vars)"
    then obtain d where d: "d \<in> set (columns df)" "name c = name d"
        "\<exists>x<0. Num x \<in> set (vals d)"
      by (auto simp: check_negative_eq [OF assms])
    with assms that have "d = c"
      by (auto simp: names_def distinct_map dest: inj_onD)
    with d that show False by simp
  qed
  then show ?thesis using check_negative_eq [OF assms] by blast
qed

theorem check_negative_report_witness:
  "distinct (names ex_neg) \<and>
   check_negative ex_neg [''id''] = [(''amount'', True), (''qty'', False)]"
proof -
  have d: "distinct (names ex_neg)" by (simp add: ex_neg_def names_def)
  show ?thesis using d check_negative_report [OF d, of "[''id'']"]
    by (simp add: ex_neg_def conj_disj_distribL ex_disj_distrib)
qed

text \<open>
  C10. For a numeric column that is not excluded, the flag is the one of the column with
  its missing cells left out; when every cell is missing the flag is false.
\<close>

theorem check_negative_missing:
  assumes "distinct (names df)" and "c \<in> set (columns df)"
    and "kind c = Numeric" and "name c \<notin> set exclude_vars"
  shows "map_of (check_negative df exclude_vars) (name c) =
           Some (\<exists>x<0. Num x \<in> set (filter (\<lambda>v. v \<noteq> Missing) (vals c))) \<and>
         (set (vals c) \<subseteq> {Missing} \<longrightarrow>
            map_of (check_negative df exclude_vars) (name c) = Some False)"
proof -
  let ?cs = "filter (\<lambda>c. kind c = Numeric \<and> name c \<notin> set exclude_vars) (columns df)"
  have "distinct (map name ?cs)"
    using assms(1) by (simp add: names_def distinct_map_filter)
  moreover have "c \<in> set ?cs" using assms by simp
  ultimately have "map_of (check_negative df exclude_vars) (name c) =
      Some (\<exists>x<0. Num x \<in> set (vals c))"
    by (simp add: check_negative_eq [OF assms(1)] map_of_name_report)
  then show ?thesis by auto
qed

theorem check_negative_missing_witness:
  "distinct (names ex_nan) \<and>
   \<lparr>name = ''gap'', kind = Numeric, vals = [Missing, Missing]\<rparr> \<in> set (columns ex_nan) \<and>
   ''gap'' \<notin> set ([] :: string list) \<and>
   map_of (check_negative ex_nan []) ''gap'' = Some False"
  using check_negative_missing
    [of ex_nan "\<lparr>name = ''gap'', kind = Numeric, vals = [Missing, Missing]\<rparr>" "[]"]
  by (simp add: ex_nan_def names_def)

section \<open>Properties of the column operations\<close>

lemma assign_present:
  "distinct (map name cs) \<Longrightarrow> var \<in> name ` set cs \<Longrightarrow>
   assign cs var k vs =
     map (\<lambda>d. if name d = var then \<lparr>name = var, kind = k, vals = vs\<rparr> else d) cs"
proof (induction cs)
  case Nil
  then show ?case by simp
next
  case (Cons c cs)
  show ?case
  proof (cases "name c = var")
    case True
    with Cons.prems have "\<forall>d \<in> set cs. name d \<noteq> var" by (auto simp: image_iff)
    then have "map (\<lambda>d. if name d = var then \<lparr>name = var, kind = k, vals = vs\<rparr> else d) cs = cs"
      by (simp add: map_idI)
    with True show ?thesis by simp
  next
    case False
    with Cons show ?thesis by auto
  qed
qed

lemma assign_absent:
  "var \<notin> name ` set cs \<Longrightarrow> assign cs var k vs = cs @ [\<lparr>name = var, kind = k, vals = vs\<rparr>]"
  by (induction cs) auto

lemma find_name_Some:
  "var \<in> name ` set cs \<Longrightarrow> \<exists>c. find (\<lambda>d. name d = var) cs = Some c \<and> c \<in> set cs \<and> name c = var"
  by (induction cs) auto

lemma astype_category_present:
  assumes "distinct (names df)" and "var \<in> set (names df)"
  shows "astype_category df var =
     Inr (df\<lparr>columns := map (\<lambda>d. if name d = var then d\<lparr>kind := Categorical\<rparr> else d) (columns df)\<rparr>)"
proof -
  from assms(2) obtain c where c: "find (\<lambda>d. name d = var) (columns df) = Some c"
      "c \<in> set (columns df)" "name c = var"
    using find_name_Some [of var "columns df"] by (auto simp: names_def)
  have "map (\<lambda>d. if name d = var then \<lparr>name = var, kind = Categorical, vals = vals c\<rparr> else d) (columns df) =
        map (\<lambda>d. if name d = var then d\<lparr>kind := Categorical\<rparr> else d) (columns df)"
  proof (rule map_cong [OF refl])
    fix d assume d: "d \<in> set (columns df)"
    show "(if name d = var then \<lparr>name = var, kind = Categorical, vals = vals c\<rparr> else d) =
          (if name d = var then d\<lparr>kind := Categorical\<rparr> else d)"
    proof (cases "name d = var")
      case True
      with d c assms(1) have "d = c"
        by (auto simp: names_def distinct_map dest: inj_onD)
      with c show ?thesis by simp
    next
      case False
      then show ?thesis by simp
    qed
  qed
  with assms c show ?thesis
    by (simp add: astype_category_def getitem_def setitem_def assign_present names_def)
qed

lemma names_assign_present:
  "var \<in> name ` set cs \<Longrightarrow> map name (assign cs var k vs) = map name cs"
  by (induction cs) auto

lemma astype_category_absent:
  "var \<notin> set (names df) \<Longrightarrow> astype_category df var = Inl (KeyError var)"
proof -
  assume "var \<notin> set (names df)"
  then have "find (\<lambda>c. name c = var) (columns df) = None"
    by (auto simp: find_None_iff names_def)
  then show ?thesis by (simp add: astype_category_def getitem_def)
qed

lemma astype_category_names:
  "astype_category df var = Inr df' \<Longrightarrow> names df' = names df"
proof (cases "var \<in> set (names df)")
  case True
  assume "astype_category df var = Inr df'"
  with True show ?thesis
    by (auto simp: astype_category_def setitem_def names_def names_assign_present
             split: sum.splits)
next
  case False
  assume "astype_category df var = Inr df'"
  with False show ?thesis by (simp add: astype_category_absent)
qed

section \<open>Properties of convert_to_categorical\<close>

lemma convert_loop_present:
  "distinct (names df) \<Longrightarrow> set vars \<subseteq> set (names df) \<Longrightarrow>
   convert_loop vars df =
     Inr (df\<lparr>columns := map (\<lambda>d. if name d \<in> set vars then d\<lparr>kind := Categorical\<rparr> else d) (columns df)\<rparr>)"
proof (induction vars arbitrary: df)
  case Nil
  then show ?case by simp
next
  case (Cons var vars)
  let ?f = "\<lambda>d. if name d = var then d\<lparr>kind := Categorical\<rparr> else d"
  let ?g = "\<lambda>d. if name d \<in> set vars then d\<lparr>kind := Categorical\<rparr> else d"
  let ?h = "\<lambda>d. if name d \<in> set (var # vars) then d\<lparr>kind := Categorical\<rparr> else d"
  let ?df1 = "df\<lparr>columns := map ?f (columns df)\<rparr>"
  have n: "names ?df1 = names df"
    by (auto simp: names_def)
  have a: "astype_category df var = Inr ?df1"
    using Cons.prems by (simp add: astype_category_present)
  have "distinct (names ?df1)" "set vars \<subseteq> set (names ?df1)"
    using Cons.prems by (simp_all only: n) simp_all
  then have b: "convert_loop vars ?df1 = Inr (?df1\<lparr>columns := map ?g (columns ?df1)\<rparr>)"
    by (rule Cons.IH)
  have c: "map ?g (map ?f (columns df)) = map ?h (columns df)"
    by auto
  show ?case
    by (simp only: convert_loop.simps a b sum.case) (simp add: c)
qed

lemma convert_loop_cong_set:
  "distinct (names df) \<Longrightarrow> set vars \<subseteq> set (names df) \<Longrightarrow> set vars' = set vars \<Longrightarrow>
   convert_loop vars' df = convert_loop vars df"
  by (simp add: convert_loop_present)

text \<open>A label that is not in the dataset makes the loop raise KeyError.\<close>

lemma convert_loop_absent:
  "var \<in> set vars \<Longrightarrow> var \<notin> set (names df) \<Longrightarrow> \<exists>v. convert_loop vars df = Inl (KeyError v)"
proof (induction vars arbitrary: df)
  case Nil
  then show ?case by simp
next
  case (Cons a vars)
  show ?case
  proof (cases "astype_category df a")
    case (Inl e)
    then have "a \<notin> set (names df)"
      by (auto simp: astype_category_def getitem_def find_None_iff names_def split: option.splits)
    then show ?thesis by (simp add: astype_category_absent)
  next
    case (Inr df')
    with Cons.prems have "a \<noteq> var"
      by (auto simp: astype_category_absent)
    with Cons.prems Inr astype_category_names [OF Inr] show ?thesis
      by (auto intro: Cons.IH)
  qed
qed

text \<open>
  C8. When every name of the extra list is a label of the dataset, the call returns the
  dataset in which each non-numeric column and each column named in the list has the
  categorical kind; label, cells and position of every column, and the row index, are as
  before. The list of selected labels is run through as it is, repeated labels included,
  with the result that the selection without its repetitions gives.
\<close>

theorem convert_to_categorical_kinds:
  assumes "distinct (names df)" and "set add_vars \<subseteq> set (names df)"
  shows "convert_to_categorical df add_vars =
           Inr (df\<lparr>columns :=
                  map (\<lambda>c. if selected add_vars c then c\<lparr>kind := Categorical\<rparr> else c) (columns df)\<rparr>) \<and>
         convert_loop (remdups (select_dtypes_exclude Numeric df @ add_vars)) df =
           convert_to_categorical df add_vars"
proof -
  let ?sel = "select_dtypes_exclude Numeric df @ add_vars"
  have sub: "set ?sel \<subseteq> set (names df)"
    using assms(2) by (auto simp: select_dtypes_exclude_def names_def)
  have e: "convert_to_categorical df add_vars = convert_loop ?sel df"
    by (cases add_vars) (simp_all add: convert_to_categorical_def)
  have m: "name c \<in> set ?sel \<longleftrightarrow> selected add_vars c" if "c \<in> set (columns df)" for c
  proof
    assume "name c \<in> set ?sel"
    then consider d where "d \<in> set (columns df)" "kind d \<noteq> Numeric" "name d = name c"
      | "name c \<in> set add_vars"
      by (auto simp: select_dtypes_exclude_def)
    then show "selected add_vars c"
    proof cases
      case 1
      with that assms(1) have "d = c"
        by (auto simp: names_def distinct_map dest: inj_onD)
      with 1 show ?thesis by (simp add: selected_def)
    next
      case 2
      then show ?thesis by (simp add: selected_def)
    qed
  next
    assume "selected add_vars c"
    with that show "name c \<in> set ?sel"
      by (auto simp: selected_def select_dtypes_exclude_def)
  qed
  have "map (\<lambda>d. if name d \<in> set ?sel then d\<lparr>kind := Categorical\<rparr> else d) (columns df) =
        map (\<lambda>c. if selected add_vars c then c\<lparr>kind := Categorical\<rparr> else c) (columns df)"
    by (rule map_cong [OF refl]) (simp only: m)
  with convert_loop_present [OF assms(1) sub]
  have "convert_loop ?sel df =
      Inr (df\<lparr>columns := map (\<lambda>c. if selected add_vars c then c\<lparr>kind := Categorical\<rparr> else c) (columns df)\<rparr>)"
    by simp
  moreover have "convert_loop (remdups ?sel) df = convert_loop ?sel df"
    using assms(1) sub by (rule convert_loop_cong_set) simp
  ultimately show ?thesis by (simp add: e)
qed

theorem convert_to_categorical_kinds_witness:
  "distinct (names ex_conv) \<and> set [''code'', ''region'', ''code''] \<subseteq> set (names ex_conv) \<and>
   convert_to_categorical ex_conv [''code'', ''region'', ''code''] =
     Inr \<lparr>index = [0, 1],
       columns = [\<lparr>name = ''amount'', kind = Numeric, vals = [Num 3, Num (-2)]\<rparr>,
                  \<lparr>name = ''region'', kind = Categorical, vals = [Str ''N'', Str ''S'']\<rparr>,
                  \<lparr>name = ''code'', kind = Categorical, vals = [Num 7, Num 7]\<rparr>]\<rparr>"
proof -
  have d: "distinct (names ex_conv)" by (simp add: ex_conv_def names_def)
  have s: "set [''code'', ''region'', ''code''] \<subseteq> set (names ex_conv)"
    by (simp add: ex_conv_def names_def)
  show ?thesis
    using d s convert_to_categorical_kinds [OF d s]
    by (simp add: ex_conv_def selected_def)
qed

section \<open>Properties of label_encode\<close>

lemma ts_key_inject: "ts_key a = ts_key b \<Longrightarrow> a = b"
  by (simp add: ts_key_def)

lemma cell_less_irrefl: "\<not> cell_less a a"
  by (cases a) auto

lemma cell_less_trans: "cell_less a b \<Longrightarrow> cell_less b c \<Longrightarrow> cell_less a c"
  by (cases a; cases b; cases c) auto

lemma cell_less_total: "same_type a b \<Longrightarrow> a \<noteq> b \<Longrightarrow> cell_less a b \<or> cell_less b a"
proof (cases a; cases b)
  fix s t assume st: "a = Stamp s" "b = Stamp t" and "a \<noteq> b"
  then have "ts_key s \<noteq> ts_key t" by (auto dest: ts_key_inject)
  then have "ts_key s < ts_key t \<or> ts_key t < ts_key s" by (rule neqE) simp_all
  with st show ?thesis by simp
qed auto

lemma same_type_sym: "same_type a b \<Longrightarrow> same_type b a"
  by (cases a; cases b) auto

lemma same_type_refl: "a \<noteq> Missing \<Longrightarrow> same_type a a"
  by (cases a) auto

lemma same_type_trans: "same_type a b \<Longrightarrow> same_type b c \<Longrightarrow> same_type a c"
  by (cases a; cases b; cases c) auto

lemma uniform_pairwise:
  "Missing \<notin> set xs \<Longrightarrow> uniform xs \<longleftrightarrow> (\<forall>a \<in> set xs. \<forall>b \<in> set xs. same_type a b)"
  by (induction xs) (auto simp: list_all_iff same_type_refl dest: same_type_sym)

lemma set_insort_cell: "set (insort_cell x ys) = insert x (set ys)"
  by (induction ys) auto

lemma set_sorted_cells: "set (sorted_cells xs) = set xs"
  by (induction xs) (auto simp: set_insort_cell)

lemma sorted_insort_cell:
  "sorted_wrt cell_less ys \<Longrightarrow> x \<notin> set ys \<Longrightarrow> \<forall>y \<in> set ys. same_type x y \<Longrightarrow>
   sorted_wrt cell_less (insort_cell x ys)"
proof (induction ys)
  case Nil
  then show ?case by simp
next
  case (Cons y ys)
  show ?case
  proof (cases "cell_less x y")
    case True
    with Cons.prems show ?thesis by (auto intro: cell_less_trans)
  next
    case False
    with Cons.prems have "cell_less y x"
      using cell_less_total [of x y] by auto
    with Cons False show ?thesis by (auto simp: set_insort_cell)
  qed
qed

lemma sorted_sorted_cells:
  "distinct xs \<Longrightarrow> Missing \<notin> set xs \<Longrightarrow> uniform xs \<Longrightarrow> sorted_wrt cell_less (sorted_cells xs)"
proof (induction xs)
  case Nil
  then show ?case by simp
next
  case (Cons x xs)
  then have "sorted_wrt cell_less (sorted_cells xs)" by simp
  moreover have "x \<notin> set (sorted_cells xs)"
    using Cons.prems by (simp add: set_sorted_cells)
  moreover have "\<forall>y \<in> set (sorted_cells xs). same_type x y"
    using Cons.prems by (simp add: set_sorted_cells list_all_iff)
  ultimately show ?case by (simp add: sorted_insort_cell)
qed

lemma classes_homogeneous:
  assumes "uniform (filter (\<lambda>v. v \<noteq> Missing) vs)"
  shows "\<exists>cs. classes vs = Inr cs \<and> sorted_wrt sorts_before cs \<and> set cs = set vs"
proof -
  let ?p = "remdups (filter (\<lambda>v. v \<noteq> Missing) vs)"
  let ?cs = "sorted_cells ?p @ (if Missing \<in> set vs then [Missing] else [])"
  have m: "Missing \<notin> set (filter (\<lambda>v. v \<noteq> Missing) vs)" by simp
  have u: "uniform ?p"
    using assms by (simp add: uniform_pairwise)
  then have c: "classes vs = Inr ?cs" by (simp add: classes_def)
  have "sorted_wrt cell_less (sorted_cells ?p)"
    using u by (intro sorted_sorted_cells) simp_all
  then have "sorted_wrt sorts_before (sorted_cells ?p)"
    by (rule sorted_wrt_mono_rel [rotated]) (simp add: sorts_before_def)
  then have s: "sorted_wrt sorts_before ?cs"
    by (auto simp: sorted_wrt_append set_sorted_cells sorts_before_def)
  have "set ?cs = set vs"
    by (auto simp: set_sorted_cells)
  with c s show ?thesis by blast
qed

lemma fit_transform_homogeneous:
  assumes "uniform (filter (\<lambda>v. v \<noteq> Missing) vs)"
  shows "\<exists>cs. sorted_wrt sorts_before cs \<and> set cs = set vs \<and>
           fit_transform vs = Inr (map (\<lambda>v. Num (of_nat (position cs v))) vs)"
  using classes_homogeneous [OF assms] by (auto simp: fit_transform_def)

lemma name_encode_column: "name (encode_column c) = name c"
  by (simp add: encode_column_def split: sum.splits)

lemma getitem_present:
  assumes "distinct (names df)" and "var \<in> set (names df)"
  shows "\<exists>c. getitem df var = Inr c \<and> c \<in> set (columns df) \<and> name c = var"
  using find_name_Some [of var "columns df"] assms(2)
  by (auto simp: getitem_def names_def)

lemma setitem_present:
  assumes "distinct (names df)" and "c \<in> set (columns df)"
  shows "setitem df (name c) k vs =
     df\<lparr>columns := map (\<lambda>d. if name d = name c then c\<lparr>kind := k, vals := vs\<rparr> else d) (columns df)\<rparr>"
proof -
  have "\<lparr>name = name c, kind = k, vals = vs\<rparr> = c\<lparr>kind := k, vals := vs\<rparr>" by simp
  with assms show ?thesis
    by (simp add: setitem_def names_def assign_present)
qed

lemma encode_loop_step:
  assumes d: "distinct (names df)" and v: "var \<in> set (names df)"
    and h: "\<forall>c \<in> set (columns df). name c = var \<longrightarrow> homogeneous c"
  shows "encode_loop (var # vars) df =
     encode_loop vars
       (df\<lparr>columns := map (\<lambda>d. if name d = var \<and> length (unique (vals d)) \<le> 2
                                then encode_column d else d) (columns df)\<rparr>)"
proof -
  from getitem_present [OF d v] obtain c where c: "getitem df var = Inr c"
      "c \<in> set (columns df)" "name c = var" by blast
  have same: "e = c" if "e \<in> set (columns df)" "name e = var" for e
    using that c d by (auto simp: names_def distinct_map dest: inj_onD)
  show ?thesis
  proof (cases "length (unique (vals c)) \<le> 2")
    case True
    from h c have "homogeneous c" by simp
    then obtain codes where f: "fit_transform (vals c) = Inr codes"
      using fit_transform_homogeneous [of "vals c"] by (auto simp: homogeneous_def)
    have "map (\<lambda>e. if name e = name c then c\<lparr>kind := Numeric, vals := codes\<rparr> else e) (columns df) =
          map (\<lambda>e. if name e = var \<and> length (unique (vals e)) \<le> 2 then encode_column e else e) (columns df)"
    proof (rule map_cong [OF refl])
      fix e assume e: "e \<in> set (columns df)"
      show "(if name e = name c then c\<lparr>kind := Numeric, vals := codes\<rparr> else e) =
            (if name e = var \<and> length (unique (vals e)) \<le> 2 then encode_column e else e)"
      proof (cases "name e = var")
        case True
        with e have "e = c" by (rule same)
        with True \<open>length (unique (vals c)) \<le> 2\<close> f c show ?thesis
          by (simp add: encode_column_def)
      next
        case False
        with c show ?thesis by simp
      qed
    qed
    with setitem_present [OF d c(2), of Numeric codes]
    have "setitem df (name c) Numeric codes =
        df\<lparr>columns := map (\<lambda>e. if name e = var \<and> length (unique (vals e)) \<le> 2
                                then encode_column e else e) (columns df)\<rparr>"
      by (simp only:)
    then have "setitem df var Numeric codes =
        df\<lparr>columns := map (\<lambda>e. if name e = var \<and> length (unique (vals e)) \<le> 2
                                then encode_column e else e) (columns df)\<rparr>"
      by (simp only: c(3))
    with True f c(1) show ?thesis by (simp del: map_eq_conv)
  next
    case False
    have "map (\<lambda>e. if name e = var \<and> length (unique (vals e)) \<le> 2 then encode_column e else e) (columns df) =
          columns df"
    proof (rule map_idI)
      fix e assume e: "e \<in> set (columns df)"
      show "(if name e = var \<and> length (unique (vals e)) \<le> 2 then encode_column e else e) = e"
      proof (cases "name e = var")
        case True
        with e have "e = c" by (rule same)
        with False show ?thesis by simp
      next
        case False
        then show ?thesis by simp
      qed
    qed
    with False c(1) show ?thesis by (simp del: map_eq_conv)
  qed
qed

lemma encode_loop_present:
  "distinct (names df) \<Longrightarrow> distinct vars \<Longrightarrow> set vars \<subseteq> set (names df) \<Longrightarrow>
   \<forall>c \<in> set (columns df). name c \<in> set vars \<longrightarrow> homogeneous c \<Longrightarrow>
   encode_loop vars df =
     Inr (df\<lparr>columns := map (\<lambda>d. if name d \<in> set vars \<and> length (unique (vals d)) \<le> 2
                                 then encode_column d else d) (columns df)\<rparr>)"
proof (induction vars arbitrary: df)
  case Nil
  then show ?case by simp
next
  case (Cons var vars)
  let ?f = "\<lambda>d. if name d = var \<and> length (unique (vals d)) \<le> 2 then encode_column d else d"
  let ?g = "\<lambda>d. if name d \<in> set vars \<and> length (unique (vals d)) \<le> 2 then encode_column d else d"
  let ?h = "\<lambda>d. if name d \<in> set (var # vars) \<and> length (unique (vals d)) \<le> 2 then encode_column d else d"
  let ?df1 = "df\<lparr>columns := map ?f (columns df)\<rparr>"
  have n: "names ?df1 = names df"
    by (auto simp: names_def name_encode_column)
  have a: "encode_loop (var # vars) df = encode_loop vars ?df1"
    using Cons.prems by (intro encode_loop_step) auto
  have "\<forall>c \<in> set (columns ?df1). name c \<in> set vars \<longrightarrow> homogeneous c"
    using Cons.prems by (auto simp: name_encode_column)
  moreover have "distinct (names ?df1)" "set vars \<subseteq> set (names ?df1)" "distinct vars"
    using Cons.prems by (simp_all only: n) simp_all
  ultimately have b: "encode_loop vars ?df1 = Inr (?df1\<lparr>columns := map ?g (columns ?df1)\<rparr>)"
    by (intro Cons.IH)
  have c: "map ?g (map ?f (columns df)) = map ?h (columns df)"
    using Cons.prems(2) by (auto simp: name_encode_column)
  have "?df1\<lparr>columns := map ?g (columns ?df1)\<rparr> = df\<lparr>columns := map ?g (map ?f (columns df))\<rparr>"
    by (simp del: map_map)
  then have "?df1\<lparr>columns := map ?g (columns ?df1)\<rparr> = df\<lparr>columns := map ?h (columns df)\<rparr>"
    by (simp only: c)
  then show ?case
    by (simp only: a b)
qed

lemma length_unique: "length (unique vs) = card (set vs)"
  by (simp add: unique_def length_remdups_card_conv)

lemma label_encode_eq:
  assumes "distinct (names df)" and "list_all homogeneous (columns df)"
  shows "label_encode df exclude_list = Inr (df\<lparr>columns := map (\<lambda>d. if name d \<in> set (filter (\<lambda>x. x \<notin> set exclude_list) (select_dtypes_include Categorical df)) \<and> length (unique (vals d)) \<le> 2 then encode_column d else d) (columns df)\<rparr>)"
proof -
  let ?vars = "filter (\<lambda>x. x \<notin> set exclude_list) (select_dtypes_include Categorical df)"
  have dv: "distinct ?vars"
    using assms(1) by (simp add: select_dtypes_include_def names_def distinct_map_filter)
  have sv: "set ?vars \<subseteq> set (names df)"
    by (auto simp: select_dtypes_include_def names_def)
  have hv: "\<forall>c \<in> set (columns df). name c \<in> set ?vars \<longrightarrow> homogeneous c"
    using assms(2) by (simp add: list_all_iff)
  show ?thesis
    unfolding label_encode_def Let_def by (rule encode_loop_present [OF assms(1) dv sv hv])
qed

lemma sorts_before_irrefl: "\<not> sorts_before a a"
  by (simp add: sorts_before_def cell_less_irrefl)

lemma sorted_wrt_irrefl_distinct:
  "sorted_wrt P xs \<Longrightarrow> (\<And>x. \<not> P x x) \<Longrightarrow> distinct xs"
  by (induction xs) auto

lemma name_in_selection:
  assumes "distinct (names df)" and "c \<in> set (columns df)"
  shows "name c \<in> set (filter (\<lambda>x. x \<notin> set ex) (select_dtypes_include k df)) \<longleftrightarrow>
         kind c = k \<and> name c \<notin> set ex"
proof
  assume "name c \<in> set (filter (\<lambda>x. x \<notin> set ex) (select_dtypes_include k df))"
  then obtain d where d: "d \<in> set (columns df)" "kind d = k" "name d = name c" "name c \<notin> set ex"
    by (auto simp: select_dtypes_include_def)
  with assms have "d = c"
    by (auto simp: names_def distinct_map dest: inj_onD)
  with d show "kind c = k \<and> name c \<notin> set ex" by simp
next
  assume "kind c = k \<and> name c \<notin> set ex"
  with assms(2) show "name c \<in> set (filter (\<lambda>x. x \<notin> set ex) (select_dtypes_include k df))"
    by (auto simp: select_dtypes_include_def)
qed

lemma encode_column_codes:
  assumes "homogeneous c"
  shows "kind (encode_column c) = Numeric \<and>
         (\<exists>cs. sorted_wrt sorts_before cs \<and> distinct cs \<and> set cs = set (vals c) \<and>
               vals (encode_column c) = map (\<lambda>v. Num (of_nat (position cs v))) (vals c))"
proof -
  from assms obtain cs where cs: "sorted_wrt sorts_before cs" "set cs = set (vals c)"
      "fit_transform (vals c) = Inr (map (\<lambda>v. Num (of_nat (position cs v))) (vals c))"
    using fit_transform_homogeneous [of "vals c"] unfolding homogeneous_def by blast
  from cs(1) have "distinct cs"
    by (rule sorted_wrt_irrefl_distinct) (rule sorts_before_irrefl)
  moreover have "encode_column c =
      c\<lparr>kind := Numeric, vals := map (\<lambda>v. Num (of_nat (position cs v))) (vals c)\<rparr>"
    by (simp add: encode_column_def cs(3))
  ultimately show ?thesis using cs(1,2) by (intro conjI exI [of _ cs]) simp_all
qed

text \<open>
  C3. On a dataset with distinct labels and homogeneous columns the call returns a
  dataset with the same index and labels. A categorical column that is not excluded and
  has at most two distinct cells, a missing one counted, becomes an integer column: its
  cells are replaced by their positions, counted from 0, in the list of the distinct
  cells sorted ascending with the missing value last, the same cell always by the same
  code. Every other column, among them the categorical ones with three or more distinct
  cells and the excluded ones, is returned as it was.
\<close>

theorem label_encode_codes:
  assumes "distinct (names df)" and "list_all homogeneous (columns df)"
  shows "\<exists>df'. label_encode df exclude_list = Inr df' \<and>
           index df' = index df \<and> names df' = names df \<and>
           (\<forall>i < length (columns df).
              (let c = columns df ! i; c' = columns df' ! i
               in if kind c = Categorical \<and> name c \<notin> set exclude_list \<and> card (set (vals c)) \<le> 2
                  then kind c' = Numeric \<and>
                       (\<exists>cs. sorted_wrt sorts_before cs \<and> distinct cs \<and> set cs = set (vals c) \<and>
                             vals c' = map (\<lambda>v. Num (of_nat (position cs v))) (vals c))
                  else c' = c))"
proof -
  let ?vars = "filter (\<lambda>x. x \<notin> set exclude_list) (select_dtypes_include Categorical df)"
  let ?f = "\<lambda>d. if name d \<in> set ?vars \<and> length (unique (vals d)) \<le> 2 then encode_column d else d"
  let ?df' = "df\<lparr>columns := map ?f (columns df)\<rparr>"
  have r: "label_encode df exclude_list = Inr ?df'"
    using assms by (rule label_encode_eq)
  have "map name (map ?f (columns df)) = map name (columns df)"
    unfolding map_map by (rule map_cong [OF refl]) (simp add: name_encode_column)
  then have n: "names ?df' = names df"
    by (simp add: names_def del: map_map)
  have cols: "let c = columns df ! i; c' = columns ?df' ! i
       in if kind c = Categorical \<and> name c \<notin> set exclude_list \<and> card (set (vals c)) \<le> 2
          then kind c' = Numeric \<and>
               (\<exists>cs. sorted_wrt sorts_before cs \<and> distinct cs \<and> set cs = set (vals c) \<and>
                     vals c' = map (\<lambda>v. Num (of_nat (position cs v))) (vals c))
          else c' = c"
    if i: "i < length (columns df)" for i
  proof -
    let ?c = "columns df ! i"
    from i have mem: "?c \<in> set (columns df)" by simp
    have c': "columns ?df' ! i = ?f ?c" using i by simp
    have sel: "name ?c \<in> set ?vars \<longleftrightarrow> kind ?c = Categorical \<and> name ?c \<notin> set exclude_list"
      using assms(1) mem by (rule name_in_selection)
    show ?thesis
    proof (cases "kind ?c = Categorical \<and> name ?c \<notin> set exclude_list \<and> card (set (vals ?c)) \<le> 2")
      case True
      from assms(2) mem have "homogeneous ?c" by (simp add: list_all_iff)
      then have A: "kind (encode_column ?c) = Numeric \<and>
          (\<exists>cs. sorted_wrt sorts_before cs \<and> distinct cs \<and> set cs = set (vals ?c) \<and>
                vals (encode_column ?c) = map (\<lambda>v. Num (of_nat (position cs v))) (vals ?c))"
        by (rule encode_column_codes)
      from True sel have e: "?f ?c = encode_column ?c" by (simp add: length_unique)
      show ?thesis unfolding Let_def if_P [OF True] c' e by (rule A)
    next
      case False
      with sel have B: "?f ?c = ?c" by (auto simp: length_unique)
      show ?thesis unfolding Let_def if_not_P [OF False] c' by (rule B)
    qed
  qed
  show ?thesis
  proof (intro exI [of _ ?df'] conjI allI impI)
    show "label_encode df exclude_list = Inr ?df'" by (rule r)
    show "index ?df' = index df" by simp
    show "names ?df' = names df" by (rule n)
  qed (rule cols)
qed

theorem label_encode_codes_witness:
  "distinct (names ex_enc) \<and> list_all homogeneous (columns ex_enc) \<and>
   label_encode ex_enc [''keep''] =
     Inr \<lparr>index = [0, 1, 2],
       columns = [\<lparr>name = ''answer'', kind = Numeric, vals = [Num 1, Num 0, Num 1]\<rparr>,
                  \<lparr>name = ''region'', kind = Categorical, vals = [Str ''N'', Str ''S'', Str ''W'']\<rparr>,
                  \<lparr>name = ''flag'', kind = Numeric, vals = [Num 1, Num 0, Num 1]\<rparr>,
                  \<lparr>name = ''keep'', kind = Categorical, vals = [Str ''b'', Str ''a'', Str ''b'']\<rparr>,
                  \<lparr>name = ''note'', kind = Text, vals = [Str ''p'', Str ''q'', Str ''p'']\<rparr>]\<rparr>"
proof -
  let ?res = "\<lparr>index = [0, 1, 2],
       columns = [\<lparr>name = ''answer'', kind = Numeric, vals = [Num 1, Num 0, Num 1]\<rparr>,
                  \<lparr>name = ''region'', kind = Categorical, vals = [Str ''N'', Str ''S'', Str ''W'']\<rparr>,
                  \<lparr>name = ''flag'', kind = Numeric, vals = [Num 1, Num 0, Num 1]\<rparr>,
                  \<lparr>name = ''keep'', kind = Categorical, vals = [Str ''b'', Str ''a'', Str ''b'']\<rparr>,
                  \<lparr>name = ''note'', kind = Text, vals = [Str ''p'', Str ''q'', Str ''p'']\<rparr>]\<rparr>"
  have d: "distinct (names ex_enc)" by (simp add: ex_enc_def names_def)
  have h: "list_all homogeneous (columns ex_enc)" by code_simp
  have e: "label_encode ex_enc [''keep''] = Inr ?res" by code_simp
  from label_encode_codes [OF d h, of "[''keep'']"]
  obtain df' where "label_encode ex_enc [''keep''] = Inr df'" by blast
  moreover from this e have "df' = ?res" by simp
  ultimately show ?thesis using d h by simp
qed

text \<open>On a column that holds a number and a string the encoder raises TypeError.\<close>

lemma label_encode_mixed: "label_encode ex_mixed [] = Inl TypeError"
  by code_simp

section \<open>Properties of create_time_vars\<close>

lemma names_assign: "map name (assign cs var k vs) = add_name (map name cs) var"
  by (induction cs) (auto simp: add_name_def)

lemma find_assign_same:
  "find (\<lambda>c. name c = var) (assign cs var k vs) = Some \<lparr>name = var, kind = k, vals = vs\<rparr>"
  by (induction cs) auto

lemma find_assign_other:
  "v \<noteq> var \<Longrightarrow> find (\<lambda>c. name c = v) (assign cs var k vs) = find (\<lambda>c. name c = v) cs"
  by (induction cs) auto

lemma assign_assign: "assign (assign cs var k vs) var k' vs' = assign cs var k' vs'"
  by (induction cs) auto

lemma set_assign_other:
  "c \<in> set cs \<Longrightarrow> name c \<noteq> var \<Longrightarrow> c \<in> set (assign cs var k vs)"
  by (induction cs) auto

lemma set_assign_subset:
  "set (assign cs var k vs) \<subseteq> insert \<lparr>name = var, kind = k, vals = vs\<rparr> (set cs)"
  by (induction cs) auto

lemma distinct_add_name: "distinct ns \<Longrightarrow> distinct (add_name ns n)"
  by (simp add: add_name_def)

lemma derive_eq:
  "derive df time_var new k f =
     (case getitem df time_var of
        Inl e \<Rightarrow> Inl e
      | Inr c \<Rightarrow> if \<not> datetimelike c then Inl AttributeError
               else Inr (setitem df new Categorical (map f (vals c))))"
  by (simp add: derive_def astype_category_def getitem_def setitem_def find_assign_same
        assign_assign split: sum.splits)

lemma getitem_in_columns: "getitem df v = Inr c \<Longrightarrow> c \<in> set (columns df) \<and> name c = v"
  by (auto simp: getitem_def split: option.splits dest: find_Some_iff [THEN iffD1])

lemma getitem_setitem_same:
  "getitem (setitem df var k vs) var = Inr \<lparr>name = var, kind = k, vals = vs\<rparr>"
  by (simp add: getitem_def setitem_def find_assign_same)

lemma getitem_setitem_other:
  "v \<noteq> var \<Longrightarrow> getitem (setitem df var k vs) v = getitem df v"
  by (simp add: getitem_def setitem_def find_assign_other)

lemma names_setitem: "names (setitem df var k vs) = add_name (names df) var"
  by (simp add: names_def setitem_def names_assign)

lemma wf_setitem:
  "wf_dataframe df \<Longrightarrow> length vs = length (index df) \<Longrightarrow> wf_dataframe (setitem df var k vs)"
  unfolding wf_dataframe_def names_setitem
  using set_assign_subset [of "columns df" var k vs]
  by (auto simp: distinct_add_name list_all_iff setitem_def)

text \<open>One guarded block that returns: what it read and what it left.\<close>

lemma opt_derive_cases:
  assumes "(if b then derive df tv new k f else Inr df) = Inr df'"
  shows "(\<not> b \<and> df' = df) \<or>
         (b \<and> (\<exists>c :: column. getitem df tv = Inr c \<and> datetimelike c \<and>
                 df' = setitem df new Categorical (map f (vals c))))"
  using assms by (cases b) (auto simp: derive_eq split: sum.splits if_splits)

lemma opt_derive:
  assumes "(if b then derive df tv new k f else Inr df) = Inr df'"
  shows "index df' = index df"
    and "names df' = (if b then add_name (names df) new else names df)"
    and "wf_dataframe df \<Longrightarrow> wf_dataframe df'"
    and "c \<in> set (columns df) \<Longrightarrow> \<not> (b \<and> name c = new) \<Longrightarrow> c \<in> set (columns df')"
    and "\<not> (b \<and> new = v) \<Longrightarrow> getitem df' v = getitem df v"
proof -
  note cs = opt_derive_cases [OF assms]
  show "index df' = index df"
    using cs by (auto simp: setitem_def)
  show "names df' = (if b then add_name (names df) new else names df)"
    using cs by (auto simp: names_setitem)
  show "wf_dataframe df'" if w: "wf_dataframe df"
  proof (cases b)
    case True
    with cs obtain c :: column where c: "getitem df tv = Inr c"
        "df' = setitem df new Categorical (map f (vals c))" by blast
    from c(1) have "c \<in> set (columns df)" by (simp add: getitem_in_columns)
    with w have "length (map f (vals c)) = length (index df)"
      by (simp add: wf_dataframe_def list_all_iff)
    with w show ?thesis unfolding c(2) by (rule wf_setitem)
  next
    case False
    with cs w show ?thesis by simp
  qed
  show "c \<in> set (columns df')" if "c \<in> set (columns df)" "\<not> (b \<and> name c = new)"
    using cs that by (auto simp: setitem_def set_assign_other)
  show "getitem df' v = getitem df v" if "\<not> (b \<and> new = v)"
    using cs that by (auto simp: getitem_setitem_other)
qed

lemma opt_derive_source:
  assumes step: "(if b then derive df tv new k f else Inr df) = Inr df'"
    and g: "getitem df' tv = Inr c'" and dl: "datetimelike c'"
  shows "\<exists>c :: column. getitem df tv = Inr c \<and> datetimelike c \<and>
           (\<forall>g. blank_with f g \<longrightarrow> map g (vals c') = map g (vals c))"
proof (cases "b \<and> new = tv")
  case True
  then have b and n: "new = tv" by simp_all
  from opt_derive_cases [OF step] \<open>b\<close> obtain c :: column where
    c: "getitem df tv = Inr c" "datetimelike c"
       "df' = setitem df new Categorical (map f (vals c))" by blast
  have "getitem df' tv = Inr \<lparr>name = tv, kind = Categorical, vals = map f (vals c)\<rparr>"
    unfolding c(3) n by (rule getitem_setitem_same)
  with g have c': "c' = \<lparr>name = tv, kind = Categorical, vals = map f (vals c)\<rparr>" by simp
  have "map h (vals c') = map h (vals c)" if h: "blank_with f h" for h
  proof -
    have "h (f v) = h v" if "v \<in> set (vals c)" for v
    proof -
      from dl that have "f v = Missing \<or> is_stamp (f v)"
        by (auto simp: datetimelike_def c' list_all_iff)
      with h have "f v = Missing" by (auto simp: blank_with_def)
      with h show ?thesis by (simp add: blank_with_def)
    qed
    then show ?thesis by (simp add: c')
  qed
  with c(1,2) show ?thesis by blast
next
  case False
  with opt_derive(5) [OF step, of tv] g have "getitem df tv = Inr c'" by simp
  with dl show ?thesis by blast
qed

lemma month_to_season_invalid: "\<not> valid_month m \<Longrightarrow> month_to_season m = None"
proof -
  assume "\<not> valid_month m"
  then have "m \<notin> set [1..<13]" by (auto simp: valid_month_def)
  moreover have "length [1..<13] = length seasons" by (simp add: seasons_def)
  ultimately show ?thesis
    unfolding month_to_season_def by (simp only: map_of_zip_is_None not_False_eq_True)
qed

lemma not_stamp_features:
  "\<not> is_stamp (dt_year v)" "\<not> is_stamp (dt_month_name v)" "\<not> is_stamp (dt_day_name v)"
  by (cases v; simp)+


lemma blank_year_month: "blank_with dt_year dt_month_name"
  unfolding blank_with_def by (auto simp: not_stamp_features elim: dt_year.elims)

lemma blank_year_day: "blank_with dt_year dt_day_name"
  unfolding blank_with_def by (auto simp: not_stamp_features elim: dt_year.elims)

lemma blank_year_season: "blank_with dt_year season_cell"
  unfolding blank_with_def
  by (auto simp: not_stamp_features season_cell_def elim: dt_year.elims)

lemma blank_month_day: "blank_with dt_month_name dt_day_name"
  unfolding blank_with_def
  by (auto simp: not_stamp_features elim!: dt_month_name.elims split: if_splits)

lemma blank_month_season: "blank_with dt_month_name season_cell"
  unfolding blank_with_def
  by (auto simp: not_stamp_features season_cell_def month_to_season_invalid
           elim!: dt_month_name.elims split: if_splits)

lemma blank_day_season: "blank_with dt_day_name season_cell"
  unfolding blank_with_def
  by (auto simp: not_stamp_features season_cell_def month_to_season_invalid
           elim!: dt_day_name.elims split: if_splits)

lemma derive_all_Inr:
  assumes "derive_all df tv year month day season = Inr r"
  shows "\<exists>df1 df2 df3.
    (if year then derive df tv ''year'' Numeric dt_year else Inr df) = Inr df1 \<and>
    (if month then derive df1 tv ''month'' Text dt_month_name else Inr df1) = Inr df2 \<and>
    (if day then derive df2 tv ''day'' Text dt_day_name else Inr df2) = Inr df3 \<and>
    (if season then derive df3 tv ''season'' Text season_cell else Inr df3) = Inr r"
  using assms unfolding derive_all_def and_then_def
  by (auto split: sum.splits)

lemma foldl_add_name:
  "distinct req \<Longrightarrow> foldl add_name ns req = ns @ filter (\<lambda>n. n \<notin> set ns) req"
proof (induction req arbitrary: ns)
  case Nil
  then show ?case by simp
next
  case (Cons a req)
  then have ih: "foldl add_name (add_name ns a) req =
      add_name ns a @ filter (\<lambda>n. n \<notin> set (add_name ns a)) req" by simp
  have f: "filter (\<lambda>n. n \<notin> set (add_name ns a)) req = filter (\<lambda>n. n \<notin> set ns) req"
    using Cons.prems by (auto simp: add_name_def intro: filter_cong)
  show ?case
  proof (cases "a \<in> set ns")
    case True
    then have "add_name ns a = ns" by (simp add: add_name_def)
    with ih True show ?thesis by simp
  next
    case False
    then have "add_name ns a = ns @ [a]" by (simp add: add_name_def)
    with ih f False show ?thesis by simp
  qed
qed

lemma distinct_requested: "distinct (requested year month day season)"
  by (simp add: requested_def)

lemma requested_features: "requested year month day season = map fst (features year month day season)"
  by (simp add: requested_def features_def)

lemma derive_all_props:
  assumes "derive_all df tv year month day season = Inr r"
  shows "index r = index df"
    and "names r = names df @ filter (\<lambda>n. n \<notin> set (names df)) (requested year month day season)"
    and "wf_dataframe df \<Longrightarrow> wf_dataframe r"
    and "c \<in> set (columns df) \<Longrightarrow> name c \<notin> set (requested year month day season) \<Longrightarrow>
         c \<in> set (columns r)"
    and "v \<notin> set (requested year month day season) \<Longrightarrow> getitem r v = getitem df v"
proof -
  from derive_all_Inr [OF assms] obtain df1 df2 df3 where
    s1: "(if year then derive df tv ''year'' Numeric dt_year else Inr df) = Inr df1" and
    s2: "(if month then derive df1 tv ''month'' Text dt_month_name else Inr df1) = Inr df2" and
    s3: "(if day then derive df2 tv ''day'' Text dt_day_name else Inr df2) = Inr df3" and
    s4: "(if season then derive df3 tv ''season'' Text season_cell else Inr df3) = Inr r"
    by blast
  show "index r = index df"
    by (simp only: opt_derive(1) [OF s1] opt_derive(1) [OF s2] opt_derive(1) [OF s3]
          opt_derive(1) [OF s4])
  have "names r = foldl add_name (names df) (requested year month day season)"
    unfolding opt_derive(2) [OF s1] opt_derive(2) [OF s2] opt_derive(2) [OF s3]
      opt_derive(2) [OF s4]
    by (cases year; cases month; cases day; cases season) (simp_all add: requested_def)
  then show "names r = names df @ filter (\<lambda>n. n \<notin> set (names df)) (requested year month day season)"
    by (simp only: foldl_add_name [OF distinct_requested])
  show "wf_dataframe r" if "wf_dataframe df"
    using that by (intro opt_derive(3) [OF s4] opt_derive(3) [OF s3] opt_derive(3) [OF s2]
          opt_derive(3) [OF s1])
  show "c \<in> set (columns r)"
    if c: "c \<in> set (columns df)" "name c \<notin> set (requested year month day season)"
  proof -
    from c(2) have n: "\<not> (year \<and> name c = ''year'')" "\<not> (month \<and> name c = ''month'')"
        "\<not> (day \<and> name c = ''day'')" "\<not> (season \<and> name c = ''season'')"
      by (auto simp: requested_def)
    from c(1) n(1) have "c \<in> set (columns df1)" by (rule opt_derive(4) [OF s1])
    then have "c \<in> set (columns df2)" using n(2) by (rule opt_derive(4) [OF s2])
    then have "c \<in> set (columns df3)" using n(3) by (rule opt_derive(4) [OF s3])
    then show ?thesis using n(4) by (rule opt_derive(4) [OF s4])
  qed
  show "getitem r v = getitem df v" if "v \<notin> set (requested year month day season)"
  proof -
    from that have n: "\<not> (year \<and> ''year'' = v)" "\<not> (month \<and> ''month'' = v)"
        "\<not> (day \<and> ''day'' = v)" "\<not> (season \<and> ''season'' = v)"
      by (auto simp: requested_def)
    show ?thesis
      by (simp only: opt_derive(5) [OF s4 n(4)] opt_derive(5) [OF s3 n(3)]
            opt_derive(5) [OF s2 n(2)] opt_derive(5) [OF s1 n(1)])
  qed
qed

text \<open>
  Every requested feature column of the result holds the feature of the source column
  the call was given, cell by cell, also when the source column carries the label of a
  feature.
\<close>

lemma derive_all_features:
  assumes r: "derive_all df tv year month day season = Inr r" and c: "getitem df tv = Inr c"
  shows "list_all (\<lambda>(n, f). getitem r n = Inr \<lparr>name = n, kind = Categorical, vals = map f (vals c)\<rparr>)
           (features year month day season)"
proof -
  from derive_all_Inr [OF r] obtain df1 df2 df3 where
    s1: "(if year then derive df tv ''year'' Numeric dt_year else Inr df) = Inr df1" and
    s2: "(if month then derive df1 tv ''month'' Text dt_month_name else Inr df1) = Inr df2" and
    s3: "(if day then derive df2 tv ''day'' Text dt_day_name else Inr df2) = Inr df3" and
    s4: "(if season then derive df3 tv ''season'' Text season_cell else Inr df3) = Inr r"
    by blast
  have src1: "map g (vals c1) = map g (vals c)"
    if "getitem df1 tv = Inr c1" "datetimelike c1" "blank_with dt_year g" for c1 g
    using opt_derive_source [OF s1 that(1,2)] c that(3) by auto
  have src2: "map g (vals c2) = map g (vals c)"
    if "getitem df2 tv = Inr c2" "datetimelike c2" "blank_with dt_year g"
      "blank_with dt_month_name g" for c2 g
  proof -
    from opt_derive_source [OF s2 that(1,2)] obtain c1 :: column where
      "getitem df1 tv = Inr c1" "datetimelike c1"
      "\<forall>g. blank_with dt_month_name g \<longrightarrow> map g (vals c2) = map g (vals c1)" by blast
    with src1 [of c1 g] that(3,4) show ?thesis by simp
  qed
  have src3: "map g (vals c3) = map g (vals c)"
    if "getitem df3 tv = Inr c3" "datetimelike c3" "blank_with dt_year g"
      "blank_with dt_month_name g" "blank_with dt_day_name g" for c3 g
  proof -
    from opt_derive_source [OF s3 that(1,2)] obtain c2 :: column where
      "getitem df2 tv = Inr c2" "datetimelike c2"
      "\<forall>g. blank_with dt_day_name g \<longrightarrow> map g (vals c3) = map g (vals c2)" by blast
    with src2 [of c2 g] that(3,4,5) show ?thesis by simp
  qed
  have y: "getitem r ''year'' = Inr \<lparr>name = ''year'', kind = Categorical, vals = map dt_year (vals c)\<rparr>"
    if year
  proof -
    from opt_derive_cases [OF s1] that c
    have "df1 = setitem df ''year'' Categorical (map dt_year (vals c))" by auto
    then have "getitem df1 ''year'' =
        Inr \<lparr>name = ''year'', kind = Categorical, vals = map dt_year (vals c)\<rparr>"
      by (simp add: getitem_setitem_same)
    then show ?thesis
      by (simp add: opt_derive(5) [OF s4] opt_derive(5) [OF s3] opt_derive(5) [OF s2])
  qed
  have m: "getitem r ''month'' =
      Inr \<lparr>name = ''month'', kind = Categorical, vals = map dt_month_name (vals c)\<rparr>"
    if month
  proof -
    from opt_derive_cases [OF s2] that obtain c1 :: column where
      c1: "getitem df1 tv = Inr c1" "datetimelike c1"
        "df2 = setitem df1 ''month'' Categorical (map dt_month_name (vals c1))" by blast
    from c1(1,2) have "map dt_month_name (vals c1) = map dt_month_name (vals c)"
      by (rule src1) (rule blank_year_month)
    with c1(3) have "getitem df2 ''month'' =
        Inr \<lparr>name = ''month'', kind = Categorical, vals = map dt_month_name (vals c)\<rparr>"
      by (simp add: getitem_setitem_same)
    then show ?thesis
      by (simp add: opt_derive(5) [OF s4] opt_derive(5) [OF s3])
  qed
  have d: "getitem r ''day'' =
      Inr \<lparr>name = ''day'', kind = Categorical, vals = map dt_day_name (vals c)\<rparr>"
    if day
  proof -
    from opt_derive_cases [OF s3] that obtain c2 :: column where
      c2: "getitem df2 tv = Inr c2" "datetimelike c2"
        "df3 = setitem df2 ''day'' Categorical (map dt_day_name (vals c2))" by blast
    from c2(1,2) have "map dt_day_name (vals c2) = map dt_day_name (vals c)"
      by (rule src2) (rule blank_year_day, rule blank_month_day)
    with c2(3) have "getitem df3 ''day'' =
        Inr \<lparr>name = ''day'', kind = Categorical, vals = map dt_day_name (vals c)\<rparr>"
      by (simp add: getitem_setitem_same)
    then show ?thesis
      by (simp add: opt_derive(5) [OF s4])
  qed
  have s: "getitem r ''season'' =
      Inr \<lparr>name = ''season'', kind = Categorical, vals = map season_cell (vals c)\<rparr>"
    if season
  proof -
    from opt_derive_cases [OF s4] that obtain c3 :: column where
      c3: "getitem df3 tv = Inr c3" "datetimelike c3"
        "r = setitem df3 ''season'' Categorical (map season_cell (vals c3))" by blast
    from c3(1,2) have "map season_cell (vals c3) = map season_cell (vals c)"
      by (rule src3) (rule blank_year_season, rule blank_month_season, rule blank_day_season)
    with c3(3) show ?thesis
      by (simp add: getitem_setitem_same)
  qed
  from y m d s show ?thesis
    by (simp add: features_def)
qed

text \<open>A call with a switch on returns only when the source column is there.\<close>

lemma derive_all_source:
  assumes "derive_all df tv year month day season = Inr r"
    and "requested year month day season \<noteq> []"
  shows "\<exists>c :: column. getitem df tv = Inr c"
proof -
  from derive_all_Inr [OF assms(1)] obtain df1 df2 df3 where
    s1: "(if year then derive df tv ''year'' Numeric dt_year else Inr df) = Inr df1" and
    s2: "(if month then derive df1 tv ''month'' Text dt_month_name else Inr df1) = Inr df2" and
    s3: "(if day then derive df2 tv ''day'' Text dt_day_name else Inr df2) = Inr df3" and
    s4: "(if season then derive df3 tv ''season'' Text season_cell else Inr df3) = Inr r"
    by blast
  from assms(2) consider year | "\<not> year" month | "\<not> year" "\<not> month" day
    | "\<not> year" "\<not> month" "\<not> day" season
    by (auto simp: requested_def split: if_splits)
  then show ?thesis
  proof cases
    case 1
    with opt_derive_cases [OF s1] show ?thesis by blast
  next
    case 2
    with s1 have "df1 = df" by simp
    with opt_derive_cases [OF s2] 2 show ?thesis by blast
  next
    case 3
    with s1 s2 have "df2 = df" by simp
    with opt_derive_cases [OF s3] 3 show ?thesis by blast
  next
    case 4
    with s1 s2 s3 have "df3 = df" by simp
    with opt_derive_cases [OF s4] 4 show ?thesis by blast
  qed
qed

lemma create_time_vars_Inr:
  assumes "create_time_vars st df tv year month day season drop_var = Inr (st', r)"
  shows "\<exists>d. derive_all (st ! df) tv year month day season = Inr d \<and>
           (drop_var \<longrightarrow> tv \<in> set (names d) \<and> r = length st \<and>
              st' = st[df := d] @ [d\<lparr>columns := filter (\<lambda>c. name c \<noteq> tv) (columns d)\<rparr>]) \<and>
           (\<not> drop_var \<longrightarrow> r = df \<and> st' = st[df := d])"
  using assms unfolding create_time_vars_def drop_def Let_def
  by (auto split: sum.splits if_splits)

lemma find_filter_keep:
  "(\<And>x. P x \<Longrightarrow> Q x) \<Longrightarrow> find P (filter Q xs) = find P xs"
  by (induction xs) auto

lemma getitem_dropped:
  "n \<noteq> tv \<Longrightarrow> getitem (d\<lparr>columns := filter (\<lambda>c. name c \<noteq> tv) (columns d)\<rparr>) n = getitem d n"
proof -
  assume "n \<noteq> tv"
  then have "find (\<lambda>c. name c = n) (filter (\<lambda>c. name c \<noteq> tv) (columns d)) =
      find (\<lambda>c. name c = n) (columns d)"
    by (intro find_filter_keep) auto
  then show ?thesis by (simp add: getitem_def)
qed

lemma getitem_named:
  "v \<in> set (names df) \<Longrightarrow> \<exists>c :: column. getitem df v = Inr c"
  using find_name_Some [of v "columns df"] by (auto simp: getitem_def names_def)



lemma wf_drop:
  "wf_dataframe d \<Longrightarrow> wf_dataframe (d\<lparr>columns := filter P (columns d)\<rparr>)"
  by (auto simp: wf_dataframe_def names_def distinct_map_filter list_all_iff)

lemma list_all_features_mono:
  assumes "list_all (\<lambda>(n, f). P n f) fs" and "\<And>n f. P n f \<Longrightarrow> Q n f"
  shows "list_all (\<lambda>(n, f). Q n f) fs"
  using assms by (auto simp: list_all_iff)

lemma create_time_vars_ex_time:
  "create_time_vars [ex_time] 0 ''date'' True True True True True =
     Inr ([ex_time_derived, ex_time_dropped], 1)"
  by code_simp

lemma create_time_vars_ex_year:
  "create_time_vars [ex_year] 0 ''date'' True True True True False = Inr ([ex_year_derived], 0)"
  by code_simp


text \<open>A categorical column of timestamps is a source the call accepts.\<close>

lemma create_time_vars_ex_cat_time:
  "create_time_vars [ex_cat_time] 0 ''when'' True False False True False =
     Inr ([\<lparr>index = [0, 1],
            columns = [\<lparr>name = ''when'', kind = Categorical,
                         vals = [Stamp \<lparr>ts_year = 2023, ts_month = 7, ts_day = 15\<rparr>, Missing]\<rparr>,
                       \<lparr>name = ''year'', kind = Categorical, vals = [Num 2023, Missing]\<rparr>,
                       \<lparr>name = ''season'', kind = Categorical, vals = [Str ''Summer'', Missing]\<rparr>]\<rparr>],
          0)"
  by code_simp

lemma opt_derive_succeeds:
  assumes "getitem df tv = Inr c" and "datetimelike c" and "\<not> (b \<and> new = tv)"
  shows "\<exists>df'. (if b then derive df tv new k f else Inr df) = Inr df' \<and> getitem df' tv = Inr c"
  using assms by (cases b) (auto simp: derive_eq getitem_setitem_other)

text \<open>
  The call returns when the accessor accepts the source column and the source column is
  not one of the feature columns the call writes.
\<close>

lemma create_time_vars_succeeds:
  assumes "getitem (st ! df) tv = Inr c" and "datetimelike c"
    and "tv \<notin> set (requested year month day season)"
  shows "\<exists>st' r. create_time_vars st df tv year month day season drop_var = Inr (st', r)"
proof -
  from assms(3) have n: "\<not> (year \<and> ''year'' = tv)" "\<not> (month \<and> ''month'' = tv)"
      "\<not> (day \<and> ''day'' = tv)" "\<not> (season \<and> ''season'' = tv)"
    by (auto simp: requested_def)
  from opt_derive_succeeds [OF assms(1,2) n(1)] obtain df1 where
    s1: "(if year then derive (st ! df) tv ''year'' Numeric dt_year else Inr (st ! df)) = Inr df1"
    and g1: "getitem df1 tv = Inr c" by blast
  from opt_derive_succeeds [OF g1 assms(2) n(2)] obtain df2 where
    s2: "(if month then derive df1 tv ''month'' Text dt_month_name else Inr df1) = Inr df2"
    and g2: "getitem df2 tv = Inr c" by blast
  from opt_derive_succeeds [OF g2 assms(2) n(3)] obtain df3 where
    s3: "(if day then derive df2 tv ''day'' Text dt_day_name else Inr df2) = Inr df3"
    and g3: "getitem df3 tv = Inr c" by blast
  from opt_derive_succeeds [OF g3 assms(2) n(4)] obtain d where
    s4: "(if season then derive df3 tv ''season'' Text season_cell else Inr df3) = Inr d"
    and g4: "getitem d tv = Inr c" by blast
  have "derive_all (st ! df) tv year month day season = Inr d"
    unfolding derive_all_def by (simp only: s1 s2 s3 s4 and_then_def sum.case)
  moreover from g4 have "tv \<in> set (names d)"
    using getitem_in_columns [of d tv c] by (auto simp: names_def)
  ultimately show ?thesis
    by (simp add: create_time_vars_def drop_def Let_def)
qed

text \<open>
  C7, as the code has it. When the call returns, the dataset it returns has the row index
  of the caller's dataset, every column has one cell per row, and the columns that were
  there and are neither written by a requested feature nor dropped are there unchanged.
  Its labels are those of the caller's dataset followed by the requested features that
  were not labels already, in the order year, month, day, season, without the source
  column when it is dropped. A requested feature whose label the dataset already has is
  not appended: the column of that label keeps its position and, like every requested
  column, is a categorical column holding the feature of the source column cell by cell.
\<close>

theorem create_time_vars_shape:
  assumes "df < length st" and "wf_dataframe (st ! df)"
    and "create_time_vars st df tv year month day season drop_var = Inr (st', r)"
  shows "index (st' ! r) = index (st ! df) \<and> wf_dataframe (st' ! r) \<and>
         names (st' ! r) =
           filter (\<lambda>n. \<not> (drop_var \<and> n = tv))
             (names (st ! df) @
              filter (\<lambda>n. n \<notin> set (names (st ! df))) (requested year month day season)) \<and>
         (\<forall>c \<in> set (columns (st ! df)).
            name c \<notin> set (requested year month day season) \<longrightarrow> \<not> (drop_var \<and> name c = tv) \<longrightarrow>
            c \<in> set (columns (st' ! r))) \<and>
         (\<forall>c. getitem (st ! df) tv = Inr c \<longrightarrow>
            list_all (\<lambda>(n, f). \<not> (drop_var \<and> n = tv) \<longrightarrow>
                        getitem (st' ! r) n =
                          Inr \<lparr>name = n, kind = Categorical, vals = map f (vals c)\<rparr>)
              (features year month day season))"
proof -
  from create_time_vars_Inr [OF assms(3)]
  obtain d where d: "derive_all (st ! df) tv year month day season = Inr d"
    and dr: "drop_var \<longrightarrow> tv \<in> set (names d) \<and> r = length st \<and>
           st' = st[df := d] @ [d\<lparr>columns := filter (\<lambda>c. name c \<noteq> tv) (columns d)\<rparr>]"
    and nd: "\<not> drop_var \<longrightarrow> r = df \<and> st' = st[df := d]"
    by blast
  note p = derive_all_props [OF d]
  show ?thesis
  proof (cases drop_var)
    case True
    with dr have res: "st' ! r = d\<lparr>columns := filter (\<lambda>c. name c \<noteq> tv) (columns d)\<rparr>"
      by (simp add: nth_append)
    have n: "names (st' ! r) = filter (\<lambda>n. n \<noteq> tv) (names d)"
      unfolding res by (simp add: names_def filter_map o_def)
    have gd: "getitem (d\<lparr>columns := filter (\<lambda>c. name c \<noteq> tv) (columns d)\<rparr>) n = getitem d n"
      if "\<not> (drop_var \<and> n = tv)" for n
      using that True by (simp add: getitem_dropped)
    have f: "list_all (\<lambda>(n, f). \<not> (drop_var \<and> n = tv) \<longrightarrow>
                getitem (st' ! r) n = Inr \<lparr>name = n, kind = Categorical, vals = map f (vals c)\<rparr>)
              (features year month day season)"
      if "getitem (st ! df) tv = Inr c" for c
      using derive_all_features [OF d that] unfolding res
      by (rule list_all_features_mono) (simp add: gd)
    from True n p(1,2) p(3) [OF assms(2)] p(4) f show ?thesis
      unfolding res by (auto simp: wf_drop)
  next
    case False
    with nd assms(1) have res: "st' ! r = d" by simp
    have f: "list_all (\<lambda>(n, f). \<not> (drop_var \<and> n = tv) \<longrightarrow>
                getitem (st' ! r) n = Inr \<lparr>name = n, kind = Categorical, vals = map f (vals c)\<rparr>)
              (features year month day season)"
      if "getitem (st ! df) tv = Inr c" for c
      using derive_all_features [OF d that] unfolding res
      by (rule list_all_features_mono) simp
    from False p(1,2) p(3) [OF assms(2)] p(4) f show ?thesis
      unfolding res by auto
  qed
qed

theorem create_time_vars_shape_witness:
  "(0::nat) < length [ex_year] \<and> wf_dataframe ([ex_year] ! 0) \<and>
   create_time_vars [ex_year] 0 ''date'' True True True True False = Inr ([ex_year_derived], 0) \<and>
   index ex_year_derived = index ex_year \<and>
   names ex_year_derived = [''year'', ''date'', ''month'', ''day'', ''season''] \<and>
   getitem ex_year_derived ''year'' =
     Inr \<lparr>name = ''year'', kind = Categorical, vals = [Num 2023]\<rparr>"
proof -
  have l: "(0::nat) < length [ex_year]" by simp
  have w: "wf_dataframe ([ex_year] ! 0)" by code_simp
  note e = create_time_vars_ex_year
  from create_time_vars_shape [OF l w e]
  have "index ([ex_year_derived] ! 0) = index ([ex_year] ! 0)" by blast
  moreover have "names ex_year_derived = [''year'', ''date'', ''month'', ''day'', ''season'']"
    by code_simp
  moreover have "getitem ex_year_derived ''year'' =
      Inr \<lparr>name = ''year'', kind = Categorical, vals = [Num 2023]\<rparr>"
    by code_simp
  ultimately show ?thesis using l w e by simp
qed

text \<open>
  C7, as the claim states it, fails on a dataset that already has a column \<open>year\<close>:
  the feature is written over that column at the front, and the labels of the result are
  not the labels of the dataset followed by the four features.
\<close>

theorem create_time_vars_order_counterexample:
  "create_time_vars [ex_year] 0 ''date'' True True True True False = Inr ([ex_year_derived], 0) \<and>
   names ex_year = [''year'', ''date''] \<and>
   requested True True True True = [''year'', ''month'', ''day'', ''season''] \<and>
   names ex_year_derived = [''year'', ''date'', ''month'', ''day'', ''season''] \<and>
   names ex_year_derived \<noteq> names ex_year @ requested True True True True"
proof -
  have "names ex_year = [''year'', ''date'']" by code_simp
  moreover have "requested True True True True = [''year'', ''month'', ''day'', ''season'']"
    by code_simp
  moreover have "names ex_year_derived = [''year'', ''date'', ''month'', ''day'', ''season'']"
    by code_simp
  ultimately show ?thesis using create_time_vars_ex_year by simp
qed



text \<open>
  C1, as the code has it. With the drop switch on, the dataset the call returns has no
  column of the source label; it is a new object at a fresh reference, not the caller's:
  the caller's dataset as the call leaves it, without the column of the source label. No
  other object of the store changes. The caller's object holds the result of the
  four feature blocks: every requested feature column, and still a column of the source
  label, which is the source column itself unless the source label is one of the
  requested features.
\<close>

theorem create_time_vars_drop:
  assumes "df < length st"
    and "create_time_vars st df tv year month day season True = Inr (st', r)"
  shows "tv \<notin> set (names (st' ! r)) \<and> r = length st \<and> r \<noteq> df \<and>
         length st' = Suc (length st) \<and>
         st' ! r = (st' ! df)\<lparr>columns := filter (\<lambda>c. name c \<noteq> tv) (columns (st' ! df))\<rparr> \<and>
         (\<forall>q < length st. q \<noteq> df \<longrightarrow> st' ! q = st ! q) \<and>
         derive_all (st ! df) tv year month day season = Inr (st' ! df) \<and>
         (\<exists>c. getitem (st ! df) tv = Inr c \<and> tv \<in> set (names (st' ! df)) \<and>
              (tv \<notin> set (requested year month day season) \<longrightarrow> getitem (st' ! df) tv = Inr c) \<and>
              list_all (\<lambda>(n, f). getitem (st' ! df) n =
                          Inr \<lparr>name = n, kind = Categorical, vals = map f (vals c)\<rparr>)
                (features year month day season))"
proof -
  from create_time_vars_Inr [OF assms(2)]
  obtain d where d: "derive_all (st ! df) tv year month day season = Inr d"
    and dr: "tv \<in> set (names d) \<and> r = length st \<and>
           st' = st[df := d] @ [d\<lparr>columns := filter (\<lambda>c. name c \<noteq> tv) (columns d)\<rparr>]"
    by blast
  note p = derive_all_props [OF d]
  from dr have res: "st' ! r = d\<lparr>columns := filter (\<lambda>c. name c \<noteq> tv) (columns d)\<rparr>"
    by (simp add: nth_append)
  from dr assms(1) have old: "st' ! df = d" by (simp add: nth_append)
  have a: "tv \<notin> set (names (st' ! r))"
    unfolding res by (auto simp: names_def)
  have b: "st' ! q = st ! q" if "q < length st" "q \<noteq> df" for q
    using dr that by (simp add: nth_append)
  have "\<exists>c :: column. getitem (st ! df) tv = Inr c"
  proof (cases "tv \<in> set (requested year month day season)")
    case True
    then have "requested year month day season \<noteq> []" by auto
    with derive_all_source [OF d] show ?thesis by blast
  next
    case False
    with dr p(2) have "tv \<in> set (names (st ! df))" by auto
    then show ?thesis by (rule getitem_named)
  qed
  then obtain c :: column where c: "getitem (st ! df) tv = Inr c" by blast
  have e: "getitem d tv = Inr c" if "tv \<notin> set (requested year month day season)"
    using p(5) [OF that] c by simp
  note f = derive_all_features [OF d c]
  from a b c e f dr assms(1) d res show ?thesis
    unfolding old by (intro conjI exI [of _ c]) auto
qed

theorem create_time_vars_drop_witness:
  "(0::nat) < length [ex_time] \<and>
   create_time_vars [ex_time] 0 ''date'' True True True True True =
     Inr ([ex_time_derived, ex_time_dropped], 1) \<and>
   ''date'' \<notin> set (names ex_time_dropped) \<and> ''date'' \<in> set (names ex_time_derived) \<and>
   getitem ex_time_derived ''date'' = getitem ex_time ''date''"
proof -
  have l: "(0::nat) < length [ex_time]" by simp
  note e = create_time_vars_ex_time
  from create_time_vars_drop [OF l e]
  have "''date'' \<notin> set (names ([ex_time_derived, ex_time_dropped] ! 1))"
    and "''date'' \<in> set (names ([ex_time_derived, ex_time_dropped] ! 0))" by blast+
  moreover have "getitem ex_time_derived ''date'' = getitem ex_time ''date''" by code_simp
  ultimately show ?thesis using l e by simp
qed

text \<open>
  C1, as the claim states it, fails: the call returns reference 1 for the caller's
  reference 0, and the dataset at reference 0 still has the column \<open>date\<close>.
\<close>

theorem create_time_vars_copy_counterexample:
  "create_time_vars [ex_time] 0 ''date'' True True True True True =
     Inr ([ex_time_derived, ex_time_dropped], 1) \<and>
   (1::nat) \<noteq> 0 \<and>
   [ex_time_derived, ex_time_dropped] ! 0 = ex_time_derived \<and>
   names ex_time_derived = [''date'', ''amount'', ''year'', ''month'', ''day'', ''season''] \<and>
   ''date'' \<in> set (names ex_time_derived) \<and>
   ex_time_derived \<noteq> ex_time_dropped"
proof -
  have "names ex_time_derived = [''date'', ''amount'', ''year'', ''month'', ''day'', ''season'']"
    by code_simp
  moreover have "ex_time_derived \<noteq> ex_time_dropped"
    by (simp add: ex_time_derived_def ex_time_dropped_def)
  ultimately show ?thesis using create_time_vars_ex_time by simp
qed

end
